(* ===== verification/Tangor_Prelude.thy ===== *)
theory Tangor_Prelude
  imports Main "HOL-Library.Word"
begin

text \<open>
  Shared vocabulary of the development: the C++ integer types, the result of a
  fallible operation with its sequencing, and the operations of the C++
  standard library that several components use: searching a vector
  (std::find), growing a vector (std::vector::resize) and writing one of its
  elements. The generic lemmas about them carry the component proofs.
\<close>

section \<open>Integer types\<close>

text \<open>The C++ types uint and uint16_t.\<close>

type_synonym uint = "32 word"
type_synonym uint16 = "16 word"

lemma unat_image_iff [simp]: "unat b \<in> unat ` S \<longleftrightarrow> (b :: 'w::len word) \<in> S"
  by (rule inj_image_mem_iff) (auto intro: injI unsigned_word_eqI)

section \<open>Collections of facts\<close>

named_theorems result_simps \<open>facts about sequencing fallible operations\<close>
named_theorems vector_simps \<open>facts about vectors and searches in them\<close>

section \<open>Results of fallible operations\<close>

text \<open>
  An operation that can throw returns \<^term>\<open>Inl e\<close> for the exception and
  \<^term>\<open>Inr v\<close> for its value. \<open>rbind\<close> runs the continuation after a
  value and passes an exception on; \<open>rfold\<close> is a range-based for loop whose
  body updates a state and may throw.
\<close>

definition rbind :: "'e + 'a \<Rightarrow> ('a \<Rightarrow> 'e + 'b) \<Rightarrow> 'e + 'b" where
  "rbind m f = (case m of Inl e \<Rightarrow> Inl e | Inr x \<Rightarrow> f x)"

definition rguard :: "bool \<Rightarrow> 'e \<Rightarrow> 'e + unit" where
  "rguard b e = (if b then Inr () else Inl e)"

fun rfold :: "('x \<Rightarrow> 's \<Rightarrow> 'e + 's) \<Rightarrow> 'x list \<Rightarrow> 's \<Rightarrow> 'e + 's" where
  "rfold f [] s = Inr s"
| "rfold f (x # xs) s = rbind (f x s) (rfold f xs)"

fun rmap :: "('x \<Rightarrow> 'e + 'y) \<Rightarrow> 'x list \<Rightarrow> 'e + 'y list" where
  "rmap f [] = Inr []"
| "rmap f (x # xs) = rbind (f x) (\<lambda>y. rbind (rmap f xs) (\<lambda>ys. Inr (y # ys)))"

lemma rbind_Inr [simp]: "rbind (Inr x) f = f x"
  by (simp add: rbind_def)

lemma rbind_Inl [simp]: "rbind (Inl e) f = Inl e"
  by (simp add: rbind_def)

lemma rbind_eq_Inr [result_simps]:
  "rbind m f = Inr y \<longleftrightarrow> (\<exists>x. m = Inr x \<and> f x = Inr y)"
  by (cases m) auto

lemma rbind_eq_Inl [result_simps]:
  "rbind m f = Inl e \<longleftrightarrow> m = Inl e \<or> (\<exists>x. m = Inr x \<and> f x = Inl e)"
  by (cases m) auto

lemma rbind_assoc: "rbind (rbind m f) g = rbind m (\<lambda>x. rbind (f x) g)"
  by (cases m) auto

lemma rguard_eq_Inr [result_simps]: "rguard b e = Inr u \<longleftrightarrow> b"
  by (simp add: rguard_def)

lemma rguard_eq_Inl [result_simps]: "rguard b e = Inl e' \<longleftrightarrow> \<not> b \<and> e' = e"
  by (auto simp: rguard_def)

lemma rguard_True [simp]: "rguard True e = Inr ()"
  and rguard_False [simp]: "rguard False e = Inl e"
  by (simp_all add: rguard_def)

lemma rfold_append: "rfold f (xs @ ys) s = rbind (rfold f xs s) (rfold f ys)"
proof (induction xs arbitrary: s)
  case (Cons x xs)
  then have "rfold f (xs @ ys) = (\<lambda>t. rbind (rfold f xs t) (rfold f ys))"
    by auto
  then show ?case by (simp add: rbind_assoc)
qed simp

text \<open>A loop keeps what each iteration keeps.\<close>

lemma rfold_invariant:
  assumes "rfold f xs s = Inr s'" and "P s"
    and "\<And>x t t'. x \<in> set xs \<Longrightarrow> P t \<Longrightarrow> f x t = Inr t' \<Longrightarrow> P t'"
  shows "P s'"
  using assms by (induction xs arbitrary: s) (auto simp: result_simps)

text \<open>A loop whose body cannot throw is a plain fold.\<close>

lemma rfold_total:
  assumes "\<And>x t. x \<in> set xs \<Longrightarrow> f x t = Inr (g x t)"
  shows "rfold f xs s = Inr (fold g xs s)"
  using assms by (induction xs arbitrary: s) auto

lemma rmap_eq_Inr:
  "rmap f xs = Inr ys \<longleftrightarrow> length ys = length xs \<and> (\<forall>i<length xs. f (xs ! i) = Inr (ys ! i))"
proof (induction xs arbitrary: ys)
  case Nil
  then show ?case by auto
next
  case (Cons x xs)
  show ?case
    by (cases ys) (auto simp: Cons.IH result_simps All_less_Suc2)
qed

lemma rmap_total:
  assumes "\<And>x. x \<in> set xs \<Longrightarrow> f x = Inr (g x)"
  shows "rmap f xs = Inr (map g xs)"
  using assms by (induction xs) auto

section \<open>Vectors\<close>

text \<open>
  \<open>find_idx x xs\<close> is the distance from begin() of the iterator that
  std::find returns: the position of the first occurrence, or the size of the
  vector (the position of end()) when there is none.
\<close>

fun find_idx :: "'a \<Rightarrow> 'a list \<Rightarrow> nat" where
  "find_idx x [] = 0"
| "find_idx x (y # ys) = (if y = x then 0 else Suc (find_idx x ys))"

lemma find_idx_le [vector_simps]: "find_idx x xs \<le> length xs"
  by (induction xs) auto

lemma find_idx_less_iff [vector_simps]: "find_idx x xs < length xs \<longleftrightarrow> x \<in> set xs"
  by (induction xs) auto

lemma find_idx_eq_length [vector_simps]: "find_idx x xs = length xs \<longleftrightarrow> x \<notin> set xs"
  using find_idx_less_iff [of x xs] find_idx_le [of x xs] by linarith

lemma nth_find_idx [vector_simps]: "x \<in> set xs \<Longrightarrow> xs ! find_idx x xs = x"
  by (induction xs) auto

lemma find_idx_inj: "x \<in> set xs \<Longrightarrow> find_idx x xs = find_idx y xs \<Longrightarrow> x = y"
  by (metis find_idx_less_iff nth_find_idx)

lemma find_idx_nth [vector_simps]: "distinct xs \<Longrightarrow> i < length xs \<Longrightarrow> find_idx (xs ! i) xs = i"
  by (metis find_idx_less_iff nth_eq_iff_index_eq nth_find_idx nth_mem)

lemma find_idx_first: "j < find_idx x xs \<Longrightarrow> xs ! j \<noteq> x"
proof (induction xs arbitrary: j)
  case Nil
  then show ?case by simp
next
  case (Cons y ys)
  then show ?case by (cases j) (auto split: if_splits)
qed

text \<open>std::vector::resize with value-initialised new elements.\<close>

definition vec_resize :: "nat \<Rightarrow> 'a \<Rightarrow> 'a list \<Rightarrow> 'a list" where
  "vec_resize n d xs = take n xs @ replicate (n - length xs) d"

lemma length_vec_resize [simp]: "length (vec_resize n d xs) = n"
  by (simp add: vec_resize_def)

lemma nth_vec_resize [vector_simps]:
  "i < n \<Longrightarrow> vec_resize n d xs ! i = (if i < length xs then xs ! i else d)"
  by (auto simp: vec_resize_def nth_append)

lemma vec_resize_same [simp]: "length xs = n \<Longrightarrow> vec_resize n d xs = xs"
  by (simp add: vec_resize_def)

text \<open>
  Assignment to \<open>v[i]\<close>. An index beyond the end is undefined behaviour in
  C++; the model stops with the error given.
\<close>

definition vec_set :: "'e \<Rightarrow> 'a list \<Rightarrow> nat \<Rightarrow> 'a \<Rightarrow> 'e + 'a list" where
  "vec_set e xs i x = (if i < length xs then Inr (xs[i := x]) else Inl e)"

lemma vec_set_eq_Inr [result_simps]:
  "vec_set e xs i x = Inr ys \<longleftrightarrow> i < length xs \<and> ys = xs[i := x]"
  by (auto simp: vec_set_def)

lemma vec_set_eq_Inl [result_simps]:
  "vec_set e xs i x = Inl e' \<longleftrightarrow> length xs \<le> i \<and> e' = e"
  by (auto simp: vec_set_def)

text \<open>Reading a list after an update, when the index that is read is in range.\<close>

lemma nth_list_update_in: "j < length xs \<Longrightarrow> xs[i := x] ! j = (if i = j then x else xs ! j)"
  by (cases "i = j") simp_all

lemma proj_nth_list_update: "f x = f (xs ! i) \<Longrightarrow> f (xs[i := x] ! j) = f (xs ! j)"
  by (cases "i = j"; cases "i < length xs") (simp_all add: list_update_beyond)

section \<open>Stateful operations that can throw\<close>

text \<open>
  An operation on a state \<open>'s\<close> returns its value or its exception together with
  the state: a C++ function that throws keeps the assignments it made before.
\<close>

type_synonym ('s, 'e, 'a) act = "'s \<Rightarrow> ('e + 'a) \<times> 's"

named_theorems act_simps \<open>unfolding of sequenced stateful operations\<close>

definition areturn :: "'a \<Rightarrow> ('s, 'e, 'a) act" where
  "areturn x s = (Inr x, s)"

definition athrow :: "'e \<Rightarrow> ('s, 'e, 'a) act" where
  "athrow e s = (Inl e, s)"

definition amodify :: "('s \<Rightarrow> 's) \<Rightarrow> ('s, 'e, unit) act" where
  "amodify f s = (Inr (), f s)"

definition abind :: "('s, 'e, 'a) act \<Rightarrow> ('a \<Rightarrow> ('s, 'e, 'b) act) \<Rightarrow> ('s, 'e, 'b) act" where
  "abind m f s = (case m s of (Inl e, s') \<Rightarrow> (Inl e, s') | (Inr x, s') \<Rightarrow> f x s')"

fun amap :: "('x \<Rightarrow> ('s, 'e, 'y) act) \<Rightarrow> 'x list \<Rightarrow> ('s, 'e, 'y list) act" where
  "amap f [] = areturn []"
| "amap f (x # xs) = abind (f x) (\<lambda>y. abind (amap f xs) (\<lambda>ys. areturn (y # ys)))"

lemmas [act_simps] = areturn_def athrow_def amodify_def

lemma abind_Inr: "m s = (Inr x, s') \<Longrightarrow> abind m f s = f x s'"
  by (simp add: abind_def)

lemma abind_Inl: "m s = (Inl e, s') \<Longrightarrow> abind m f s = (Inl e, s')"
  by (simp add: abind_def)

text \<open>
  \<open>act_spec P m Q E\<close>: from a state with \<open>P\<close> the operation returns a value and a
  state with \<open>Q\<close>, or throws in a state with \<open>E\<close>.
\<close>

definition act_spec :: "('s \<Rightarrow> bool) \<Rightarrow> ('s, 'e, 'a) act \<Rightarrow> ('a \<Rightarrow> 's \<Rightarrow> bool) \<Rightarrow> ('s \<Rightarrow> bool) \<Rightarrow> bool" where
  "act_spec P m Q E \<longleftrightarrow> (\<forall>s. P s \<longrightarrow> (case m s of (Inl _, s') \<Rightarrow> E s' | (Inr x, s') \<Rightarrow> Q x s'))"

lemma act_specI:
  assumes "\<And>s x s'. P s \<Longrightarrow> m s = (Inr x, s') \<Longrightarrow> Q x s'"
    and "\<And>s e s'. P s \<Longrightarrow> m s = (Inl e, s') \<Longrightarrow> E s'"
  shows "act_spec P m Q E"
  using assms by (auto simp: act_spec_def split: prod.split sum.split)

lemma act_spec_return: "(\<And>s. P s \<Longrightarrow> Q x s) \<Longrightarrow> act_spec P (areturn x) Q E"
  by (simp add: act_spec_def act_simps)

lemma act_spec_Inr: "act_spec P m Q E \<Longrightarrow> P s \<Longrightarrow> m s = (Inr x, s') \<Longrightarrow> Q x s'"
  and act_spec_Inl: "act_spec P m Q E \<Longrightarrow> P s \<Longrightarrow> m s = (Inl e, s') \<Longrightarrow> E s'"
  by (fastforce simp: act_spec_def)+

lemma act_spec_bind:
  assumes "act_spec P m R E" and "\<And>x. act_spec (R x) (f x) Q E"
  shows "act_spec P (abind m f) Q E"
proof (rule act_specI)
  fix s x s'
  assume "P s" and "abind m f s = (Inr x, s')"
  then obtain y t where "m s = (Inr y, t)" and "f y t = (Inr x, s')"
    by (auto simp: abind_def split: prod.splits sum.splits)
  from act_spec_Inr [OF assms(1) \<open>P s\<close> this(1)] this(2) show "Q x s'"
    by (rule act_spec_Inr [OF assms(2)])
next
  fix s e s'
  assume "P s" and "abind m f s = (Inl e, s')"
  then consider "m s = (Inl e, s')" | y t where "m s = (Inr y, t)" "f y t = (Inl e, s')"
    by (auto simp: abind_def split: prod.splits sum.splits)
  then show "E s'"
  proof cases
    case 1
    with act_spec_Inl [OF assms(1) \<open>P s\<close>] show ?thesis .
  next
    case 2
    from act_spec_Inr [OF assms(1) \<open>P s\<close> 2(1)] show ?thesis
      using 2(2) by (rule act_spec_Inl [OF assms(2)])
  qed
qed

lemma act_spec_amap:
  assumes "\<And>x. act_spec P (f x) (\<lambda>_. P) E"
  shows "act_spec P (amap f xs) (\<lambda>_. P) E"
proof (induction xs)
  case (Cons x xs)
  show ?case unfolding amap.simps
    by (intro act_spec_bind [OF assms] act_spec_bind [OF Cons.IH] act_spec_return)
qed (simp add: act_spec_return)

lemma act_spec_weaken:
  assumes "act_spec P m Q E" and "\<And>s. P' s \<Longrightarrow> P s" and "\<And>x s. Q x s \<Longrightarrow> Q' x s"
    and "\<And>s. E s \<Longrightarrow> E' s"
  shows "act_spec P' m Q' E'"
  using assms by (fastforce simp: act_spec_def split: prod.splits sum.splits)

lemma act_specD:
  assumes "act_spec P m (\<lambda>_. I) I" and "P s"
  shows "I (snd (m s))"
proof (cases "fst (m s)")
  case (Inl e)
  then show ?thesis using act_spec_Inl [OF assms] by (metis prod.collapse)
next
  case (Inr x)
  then show ?thesis using act_spec_Inr [OF assms] by (metis prod.collapse)
qed

end
