(* ===== verification/Yosys_Json_Parser.thy ===== *)
theory Yosys_Json_Parser
  imports Tangor_Prelude
begin

text \<open>
  The netlist parser (src/src/yosys-json-parser.cpp and
  src/include/yosys-json-parser.hpp): the constructor of ParsedBC walks the
  JSON netlist that Yosys writes and fills the vectors of ports, wires,
  flip-flops and gates. The JSON library (nlohmann::json) is a parameter, a
  record of the member functions the constructor calls. The theory shows the
  well-formedness of every ParsedBC that the constructor returns, what the
  dependency vector means, and the error branches.
\<close>

section \<open>The JSON library\<close>

text \<open>
  The calls the parser makes on a JSON value: parse, operator[] with a key and
  with an index, the range of a range-based for loop, get for strings, for
  uint and for a vector of int, and is_string. A call that throws, or that
  breaks a precondition of the library (the lookup of a missing key in a constant value), is
  \<^const>\<open>None\<close>.
\<close>

record 'j json_api =
  js_parse :: "string \<Rightarrow> 'j option"
  js_key :: "'j \<Rightarrow> string \<Rightarrow> 'j option"
  js_idx :: "'j \<Rightarrow> nat \<Rightarrow> 'j option"
  js_range :: "'j \<Rightarrow> 'j list"
  js_string :: "'j \<Rightarrow> string option"
  js_uint :: "'j \<Rightarrow> uint option"
  js_ints :: "'j \<Rightarrow> int list option"
  js_is_string :: "'j \<Rightarrow> bool"

section \<open>Data\<close>

text \<open>
  The ways the constructor fails: an exception of the JSON library, the throw
  of a bad port direction, and the two forms of undefined behaviour its
  operations can have (erasing beyond the end of a short cell type, writing
  beyond the end of a vector).
\<close>

datatype parser_error = JsonException | PortDefinitionError | NameTooShort | IndexOutOfRange

record GateStruct =
  gs_name :: string
  gs_in :: "uint list"
  gs_out :: "uint list"

record ParsedBC =
  input_vector :: "uint list"
  output_vector :: "uint list"
  DFF_Q_vector :: "uint list"
  DFF_D_vector :: "uint list"
  wire_vector :: "uint list"
  gate_vector :: "GateStruct list"
  direct_port_pair_vector :: "(uint \<times> uint) list"
  dependency_vector :: "uint list"

text \<open>The local state of the constructor: the object and the next gate number.\<close>

record parser_state =
  bc :: ParsedBC
  gate_index :: uint

text \<open>A value-initialised gate, as vector::resize creates it.\<close>

definition empty_gate :: GateStruct where
  "empty_gate = \<lparr>gs_name = [], gs_in = replicate 3 0, gs_out = replicate 3 0\<rparr>"

definition initial_state :: parser_state where
  "initial_state =
     \<lparr>bc = \<lparr>input_vector = [], output_vector = [], DFF_Q_vector = [], DFF_D_vector = [],
            wire_vector = [], gate_vector = [], direct_port_pair_vector = [],
            dependency_vector = []\<rparr>,
      gate_index = 1\<rparr>"

section \<open>Operations\<close>

definition json_call :: "'a option \<Rightarrow> parser_error + 'a" where
  "json_call r = (case r of None \<Rightarrow> Inl JsonException | Some v \<Rightarrow> Inr v)"

definition parse_port ::
  "'j json_api \<Rightarrow> 'j \<Rightarrow> parser_state \<Rightarrow> parser_error + parser_state" where
  "parse_port api port_json st =
     rbind (json_call (js_key api port_json ''direction'')) (\<lambda>d.
     rbind (json_call (js_string api d)) (\<lambda>direction.
     if direction = ''input'' then
       rbind (json_call (js_key api port_json ''bits'')) (\<lambda>b.
       rbind (json_call (js_ints api b)) (\<lambda>bits.
       Inr (st\<lparr>bc := (bc st)\<lparr>input_vector := input_vector (bc st) @ map word_of_int bits\<rparr>\<rparr>)))
     else if direction = ''output'' then
       rbind (json_call (js_key api port_json ''bits'')) (\<lambda>b.
       rbind (json_call (js_ints api b)) (\<lambda>bits.
       Inr (st\<lparr>bc := (bc st)\<lparr>output_vector := output_vector (bc st) @ map word_of_int bits\<rparr>\<rparr>)))
     else Inl PortDefinitionError))"

text \<open>
  The cell type without its "$_" prefix and "_" suffix. Erasing two characters
  and popping one needs three of them.
\<close>

definition strip_cell_type :: "string \<Rightarrow> parser_error + string" where
  "strip_cell_type gate_name =
     (if gate_name = ''$fa'' then Inr ''fa''
      else if length gate_name < 3 then Inl NameTooShort
      else Inr (butlast (drop 2 gate_name)))"

definition tfhe_gate_name :: "string \<Rightarrow> string" where
  "tfhe_gate_name gate_name =
     (if gate_name = ''ANDNOT'' then ''ANDYN''
      else if gate_name = ''ORNOT'' then ''ORYN''
      else gate_name)"

text \<open>The expression cell_json["connections"][port][0] and its get for uint.\<close>

definition connection_json :: "'j json_api \<Rightarrow> 'j \<Rightarrow> string \<Rightarrow> parser_error + 'j" where
  "connection_json api cell_json port =
     rbind (json_call (js_key api cell_json ''connections'')) (\<lambda>c.
     rbind (json_call (js_key api c port)) (\<lambda>bits.
     json_call (js_idx api bits 0)))"

definition connection :: "'j json_api \<Rightarrow> 'j \<Rightarrow> string \<Rightarrow> parser_error + uint" where
  "connection api cell_json port =
     rbind (connection_json api cell_json port) (\<lambda>b. json_call (js_uint api b))"

text \<open>An assignment to a member of gate_vector[gate_index - 1].\<close>

definition update_gate ::
  "(GateStruct \<Rightarrow> GateStruct) \<Rightarrow> parser_state \<Rightarrow> parser_error + parser_state" where
  "update_gate f st =
     (let i = unat (gate_index st - 1); gates = gate_vector (bc st)
      in if i < length gates
         then Inr (st\<lparr>bc := (bc st)\<lparr>gate_vector := gates[i := f (gates ! i)]\<rparr>\<rparr>)
         else Inl IndexOutOfRange)"

definition set_gate_in :: "nat \<Rightarrow> uint \<Rightarrow> parser_state \<Rightarrow> parser_error + parser_state" where
  "set_gate_in slot v = update_gate (\<lambda>g. g\<lparr>gs_in := (gs_in g)[slot := v]\<rparr>)"

definition note_wire :: "uint list \<Rightarrow> uint \<Rightarrow> uint list \<Rightarrow> uint list" where
  "note_wire outputs output_bit wires =
     (if find_idx output_bit outputs = length outputs \<and>
         find_idx output_bit wires = length wires
      then wires @ [output_bit] else wires)"

definition note_dependency :: "uint \<Rightarrow> uint \<Rightarrow> uint list \<Rightarrow> parser_error + uint list" where
  "note_dependency gate output_bit deps =
     (let deps' = (if length deps \<le> unat output_bit
                   then vec_resize (unat (output_bit + 1)) 0 deps else deps)
      in vec_set IndexOutOfRange deps' (unat output_bit) gate)"

text \<open>The block that records one output bit of the current gate.\<close>

definition record_output :: "nat \<Rightarrow> uint \<Rightarrow> parser_state \<Rightarrow> parser_error + parser_state" where
  "record_output slot output_bit st =
     rbind (update_gate (\<lambda>g. g\<lparr>gs_out := (gs_out g)[slot := output_bit]\<rparr>) st) (\<lambda>st1.
     let wires = note_wire (output_vector (bc st1)) output_bit (wire_vector (bc st1)) in
     rbind (note_dependency (gate_index st1) output_bit (dependency_vector (bc st1))) (\<lambda>deps.
     Inr (st1\<lparr>bc := (bc st1)\<lparr>wire_vector := wires, dependency_vector := deps\<rparr>\<rparr>)))"

text \<open>
  The inputs after A, and the name under which the gate is stored. USE_M12 is
  the build option \<open>m12\<close>.
\<close>

definition parse_more_inputs ::
  "bool \<Rightarrow> 'j json_api \<Rightarrow> 'j \<Rightarrow> string \<Rightarrow> parser_state \<Rightarrow> parser_error + (string \<times> parser_state)" where
  "parse_more_inputs m12 api cell_json gate_name st =
     rbind (connection api cell_json ''B'') (\<lambda>b.
     rbind (set_gate_in 1 b st) (\<lambda>st1.
     if gate_name = ''MUX'' \<or> gate_name = ''NMUX'' then
       rbind (connection api cell_json ''S'') (\<lambda>s.
       rbind (set_gate_in 2 s st1) (\<lambda>st2. Inr (gate_name, st2)))
     else if gate_name = ''fa'' then
       rbind (connection api cell_json ''X'') (\<lambda>x.
       rbind (record_output 1 x st1) (\<lambda>st2.
       rbind (connection_json api cell_json ''C'') (\<lambda>c_json.
       if js_is_string api c_json then Inr (''ha'', st2)
       else rbind (connection api cell_json ''C'') (\<lambda>c.
            rbind (set_gate_in 2 c st2) (\<lambda>st3. Inr (gate_name, st3))))))
     else if m12 \<and> (gate_name = ''AOI3'' \<or> gate_name = ''OAI3'') then
       rbind (connection api cell_json ''C'') (\<lambda>c.
       rbind (set_gate_in 2 c st1) (\<lambda>st2. Inr (gate_name, st2)))
     else Inr (gate_name, st1)))"

definition ensure_gate_slot :: "parser_state \<Rightarrow> parser_state" where
  "ensure_gate_slot st =
     (if length (gate_vector (bc st)) < unat (gate_index st)
      then st\<lparr>bc := (bc st)\<lparr>gate_vector :=
              vec_resize (unat (gate_index st)) empty_gate (gate_vector (bc st))\<rparr>\<rparr>
      else st)"

definition parse_gate ::
  "bool \<Rightarrow> 'j json_api \<Rightarrow> 'j \<Rightarrow> string \<Rightarrow> parser_state \<Rightarrow> parser_error + parser_state" where
  "parse_gate m12 api cell_json gate_name st =
     rbind (connection api cell_json ''Y'') (\<lambda>y.
     rbind (record_output 0 y (ensure_gate_slot st)) (\<lambda>st1.
     rbind (connection api cell_json ''A'') (\<lambda>a.
     rbind (set_gate_in 0 a st1) (\<lambda>st2.
     rbind (if gate_name \<noteq> ''NOT'' then parse_more_inputs m12 api cell_json gate_name st2
            else Inr (gate_name, st2)) (\<lambda>(name, st3).
     rbind (update_gate (\<lambda>g. g\<lparr>gs_name := name\<rparr>) st3) (\<lambda>st4.
     Inr (st4\<lparr>gate_index := gate_index st4 + 1\<rparr>)))))))"

definition parse_dff ::
  "'j json_api \<Rightarrow> 'j \<Rightarrow> parser_state \<Rightarrow> parser_error + parser_state" where
  "parse_dff api cell_json st =
     rbind (connection api cell_json ''Q'') (\<lambda>q.
     rbind (connection api cell_json ''D'') (\<lambda>d.
     Inr (st\<lparr>bc := (bc st)\<lparr>DFF_Q_vector := DFF_Q_vector (bc st) @ [q],
                           DFF_D_vector := DFF_D_vector (bc st) @ [d]\<rparr>\<rparr>)))"

definition parse_cell ::
  "bool \<Rightarrow> 'j json_api \<Rightarrow> 'j \<Rightarrow> parser_state \<Rightarrow> parser_error + parser_state" where
  "parse_cell m12 api cell_json st =
     rbind (json_call (js_key api cell_json ''type'')) (\<lambda>t.
     rbind (json_call (js_string api t)) (\<lambda>cell_type.
     rbind (strip_cell_type cell_type) (\<lambda>stripped.
     let gate_name = tfhe_gate_name stripped in
     if gate_name = ''SDFF_PP0'' then parse_dff api cell_json st
     else parse_gate m12 api cell_json gate_name st)))"

definition parse_module ::
  "bool \<Rightarrow> 'j json_api \<Rightarrow> 'j \<Rightarrow> parser_state \<Rightarrow> parser_error + parser_state" where
  "parse_module m12 api module_json st =
     rbind (json_call (js_key api module_json ''ports'')) (\<lambda>ports.
     rbind (rfold (parse_port api) (js_range api ports) st) (\<lambda>st1.
     rbind (json_call (js_key api module_json ''cells'')) (\<lambda>cells.
     rfold (parse_cell m12 api) (js_range api cells) st1)))"

text \<open>The loop over the flip-flops whose Q port is also an output port.\<close>

fun direct_pairs :: "uint list \<Rightarrow> uint list \<Rightarrow> (uint \<times> uint) list" where
  "direct_pairs outputs [] = []"
| "direct_pairs outputs (q # qs) =
     (if find_idx q outputs \<noteq> length outputs
      then (q, outputs ! find_idx q outputs) # direct_pairs outputs qs
      else direct_pairs outputs qs)"

definition finish_netlist :: "ParsedBC \<Rightarrow> ParsedBC" where
  "finish_netlist b =
     b\<lparr>direct_port_pair_vector :=
         direct_port_pair_vector b @ direct_pairs (output_vector b) (DFF_Q_vector b),
       input_vector := sort (input_vector b),
       output_vector := sort (output_vector b),
       wire_vector := sort (wire_vector b)\<rparr>"

definition parse_netlist :: "bool \<Rightarrow> 'j json_api \<Rightarrow> string \<Rightarrow> parser_error + ParsedBC" where
  "parse_netlist m12 api jsonstring =
     rbind (json_call (js_parse api jsonstring)) (\<lambda>jsonnetlist.
     rbind (json_call (js_key api jsonnetlist ''modules'')) (\<lambda>modules.
     rbind (rfold (parse_module m12 api) (js_range api modules) initial_state) (\<lambda>st.
     Inr (finish_netlist (bc st)))))"

section \<open>One cell\<close>

text \<open>
  While a gate is being read only the gates, the wires and the dependencies
  change; \<open>with_gates\<close> is the state with new values of the three. The gate
  being read is the last element of gate_vector, at position gate_index - 1.
\<close>

definition with_gates ::
  "parser_state \<Rightarrow> GateStruct list \<Rightarrow> uint list \<Rightarrow> uint list \<Rightarrow> parser_state" where
  "with_gates st gates wires deps =
     st\<lparr>bc := (bc st)\<lparr>gate_vector := gates, wire_vector := wires, dependency_vector := deps\<rparr>\<rparr>"

abbreviation gate :: "string \<Rightarrow> uint list \<Rightarrow> uint list \<Rightarrow> GateStruct" where
  "gate nm ins outs \<equiv> \<lparr>gs_name = nm, gs_in = ins, gs_out = outs\<rparr>"

text \<open>Between two cells gate_index is one more than the number of gates, modulo 2 ^ 32.\<close>

definition counts_ok :: "parser_state \<Rightarrow> bool" where
  "counts_ok st \<longleftrightarrow>
     length (gate_vector (bc st)) < 2 ^ 32 \<and>
     gate_index st = word_of_nat (Suc (length (gate_vector (bc st))))"

lemma json_call_eq_Inr [result_simps]: "json_call r = Inr v \<longleftrightarrow> r = Some v"
  by (cases r) (auto simp: json_call_def)

lemma json_call_eq_Inl [result_simps]: "json_call r = Inl e \<longleftrightarrow> r = None \<and> e = JsonException"
  by (cases r) (auto simp: json_call_def)

lemma with_gates_simps [simp]:
  "gate_index (with_gates st gates wires deps) = gate_index st"
  "gate_vector (bc (with_gates st gates wires deps)) = gates"
  "wire_vector (bc (with_gates st gates wires deps)) = wires"
  "dependency_vector (bc (with_gates st gates wires deps)) = deps"
  "output_vector (bc (with_gates st gates wires deps)) = output_vector (bc st)"
  "with_gates (with_gates st gates wires deps) gates' wires' deps' = with_gates st gates' wires' deps'"
  by (simp_all add: with_gates_def)

lemma with_gates_update:
  "(with_gates st gates wires deps)\<lparr>bc := (bc (with_gates st gates wires deps))
     \<lparr>wire_vector := wires', dependency_vector := deps'\<rparr>\<rparr> = with_gates st gates wires' deps'"
  by (cases "bc st") (simp add: with_gates_def)

lemma update_gate_slot:
  "unat (gate_index st - 1) = length gates \<Longrightarrow>
   update_gate f (with_gates st (gates @ [g]) wires deps) =
     Inr (with_gates st (gates @ [f g]) wires deps)"
  by (cases st) (simp add: update_gate_def with_gates_def Let_def)

lemma set_gate_in_slot:
  "unat (gate_index st - 1) = length gates \<Longrightarrow>
   set_gate_in k v (with_gates st (gates @ [gate nm ins outs]) wires deps) =
     Inr (with_gates st (gates @ [gate nm (ins[k := v]) outs]) wires deps)"
  by (simp add: set_gate_in_def update_gate_slot)

lemma record_output_slot:
  "unat (gate_index st - 1) = length gates \<Longrightarrow>
   record_output k v (with_gates st (gates @ [gate nm ins outs]) wires deps) = Inr st' \<longleftrightarrow>
     (\<exists>deps'. note_dependency (gate_index st) v deps = Inr deps' \<and>
        st' = with_gates st (gates @ [gate nm ins (outs[k := v])])
               (note_wire (output_vector (bc st)) v wires) deps')"
  by (auto simp: record_output_def update_gate_slot with_gates_update result_simps Let_def)

lemma unat_pred_Suc:
  assumes "Suc n < 2 ^ 32"
  shows "unat (word_of_nat (Suc n) :: uint) = Suc n" and "unat (word_of_nat (Suc n) - 1 :: uint) = n"
proof -
  show "unat (word_of_nat (Suc n) :: uint) = Suc n"
    unfolding unat_of_nat using assms by simp
  have "unat (word_of_nat n :: uint) = n"
    unfolding unat_of_nat using assms by simp
  then show "unat (word_of_nat (Suc n) - 1 :: uint) = n" by simp
qed

lemma ensure_gate_slot_fresh:
  assumes "counts_ok st" and "record_output k v (ensure_gate_slot st) = Inr st'"
  shows "ensure_gate_slot st =
      with_gates st (gate_vector (bc st) @ [empty_gate]) (wire_vector (bc st)) (dependency_vector (bc st))"
    and "unat (gate_index st - 1) = length (gate_vector (bc st))"
    and "Suc (length (gate_vector (bc st))) < 2 ^ 32"
proof -
  let ?n = "length (gate_vector (bc st))"
  have n: "?n < 2 ^ 32" and gi: "gate_index st = word_of_nat (Suc ?n)"
    using assms(1) by (auto simp: counts_ok_def)
  show small: "Suc ?n < 2 ^ 32"
  proof (rule ccontr)
    assume "\<not> Suc ?n < 2 ^ 32"
    then have full: "Suc ?n = 2 ^ 32" using n by linarith
    have "unat (gate_index st) = 0"
      unfolding gi full unat_of_nat by simp
    then have "gate_index st = 0" by (simp add: unat_eq_zero)
    moreover have "unat (- 1 :: uint) = ?n"
      using full by (simp add: unsigned_minus_1_eq_mask mask_eq_exp_minus_1)
    ultimately show False
      using assms(2)
      by (auto simp: record_output_def ensure_gate_slot_def update_gate_def result_simps Let_def)
  qed
  note eqs = unat_pred_Suc [OF small, folded gi]
  then show "unat (gate_index st - 1) = ?n" by simp
  show "ensure_gate_slot st = with_gates st (gate_vector (bc st) @ [empty_gate])
      (wire_vector (bc st)) (dependency_vector (bc st))"
    using eqs(1) by (cases st) (simp add: ensure_gate_slot_def with_gates_def vec_resize_def)
qed

text \<open>
  What a gate cell says, read off the JSON value alone: the name under which
  the gate is stored, the second and third input, and the second output of a
  full or half adder.
\<close>

definition more_inputs_spec ::
  "bool \<Rightarrow> 'j json_api \<Rightarrow> 'j \<Rightarrow> string \<Rightarrow> parser_error + (string \<times> uint \<times> uint \<times> uint option)" where
  "more_inputs_spec m12 api cell_json nm =
     rbind (connection api cell_json ''B'') (\<lambda>b.
     if nm = ''MUX'' \<or> nm = ''NMUX'' then
       rbind (connection api cell_json ''S'') (\<lambda>s. Inr (nm, b, s, None))
     else if nm = ''fa'' then
       rbind (connection api cell_json ''X'') (\<lambda>x.
       rbind (connection_json api cell_json ''C'') (\<lambda>c_json.
       if js_is_string api c_json then Inr (''ha'', b, 0, Some x)
       else rbind (connection api cell_json ''C'') (\<lambda>c. Inr (nm, b, c, Some x))))
     else if m12 \<and> (nm = ''AOI3'' \<or> nm = ''OAI3'') then
       rbind (connection api cell_json ''C'') (\<lambda>c. Inr (nm, b, c, None))
     else Inr (nm, b, 0, None))"

definition gate_spec ::
  "bool \<Rightarrow> 'j json_api \<Rightarrow> 'j \<Rightarrow> string \<Rightarrow> parser_error + GateStruct" where
  "gate_spec m12 api cell_json nm =
     rbind (connection api cell_json ''Y'') (\<lambda>y.
     rbind (connection api cell_json ''A'') (\<lambda>a.
     rbind (if nm \<noteq> ''NOT'' then more_inputs_spec m12 api cell_json nm
            else Inr (nm, 0, 0, None)) (\<lambda>(name, b, c, x).
     Inr (gate name [a, b, c] [y, case x of None \<Rightarrow> 0 | Some v \<Rightarrow> v, 0]))))"

text \<open>
  The effect of a whole gate cell on the netlist: one gate is appended, and
  each of its recorded outputs \<open>outs\<close> passes through the wire and the
  dependency bookkeeping.
\<close>

definition gate_added :: "GateStruct \<Rightarrow> uint list \<Rightarrow> parser_state \<Rightarrow> parser_state \<Rightarrow> bool" where
  "gate_added g outs st st' \<longleftrightarrow>
     length (gs_in g) = 3 \<and> length (gs_out g) = 3 \<and>
     (outs = [gs_out g ! 0] \<and> gs_name g \<noteq> ''fa'' \<or> outs = [gs_out g ! 0, gs_out g ! 1]) \<and>
     (\<exists>deps. rfold (note_dependency (gate_index st)) outs (dependency_vector (bc st)) = Inr deps \<and>
        st' = (with_gates st (gate_vector (bc st) @ [g])
               (fold (note_wire (output_vector (bc st))) outs (wire_vector (bc st))) deps)
              \<lparr>gate_index := gate_index st + 1\<rparr>)"

lemma parse_more_inputs_effect:
  assumes "parse_more_inputs m12 api cell nm
      (with_gates st (gates @ [gate n0 [a, 0, 0] [y, 0, 0]]) wires deps) = Inr (name, st')"
    and pos: "unat (gate_index st - 1) = length gates"
  shows "(\<exists>b c. more_inputs_spec m12 api cell nm = Inr (name, b, c, None) \<and> name \<noteq> ''fa'' \<and>
            st' = with_gates st (gates @ [gate n0 [a, b, c] [y, 0, 0]]) wires deps) \<or>
         (\<exists>b c x deps'. more_inputs_spec m12 api cell nm = Inr (name, b, c, Some x) \<and>
            note_dependency (gate_index st) x deps = Inr deps' \<and>
            st' = with_gates st (gates @ [gate n0 [a, b, c] [y, x, 0]])
                    (note_wire (output_vector (bc st)) x wires) deps')"
proof -
  note slot = set_gate_in_slot [OF pos] record_output_slot [OF pos]
  from assms(1) obtain b where b: "connection api cell ''B'' = Inr b"
    by (auto simp: parse_more_inputs_def result_simps)
  note eqs = parse_more_inputs_def more_inputs_spec_def b rbind_Inr
  show ?thesis
  proof (cases "nm = ''fa''")
    case True
    from assms(1) obtain x st2 cj where
      x: "connection api cell ''X'' = Inr x" and
      st2: "record_output 1 x (with_gates st (gates @ [gate n0 [a, b, 0] [y, 0, 0]]) wires deps)
            = Inr st2" and
      cj: "connection_json api cell ''C'' = Inr cj" and
      c: "(if js_is_string api cj then Inr (''ha'', st2)
           else rbind (connection api cell ''C'') (\<lambda>c.
                rbind (set_gate_in 2 c st2) (\<lambda>st3. Inr (nm, st3)))) = Inr (name, st')"
      unfolding eqs by (auto simp: slot result_simps True)
    from st2 obtain deps' where
      dp: "note_dependency (gate_index st) x deps = Inr deps'" and
      st2': "st2 = with_gates st (gates @ [gate n0 [a, b, 0] [y, x, 0]])
         (note_wire (output_vector (bc st)) x wires) deps'"
      by (auto simp: slot)
    have spec: "more_inputs_spec m12 api cell nm =
      (if js_is_string api cj then Inr (''ha'', b, 0, Some x)
       else rbind (connection api cell ''C'') (\<lambda>c. Inr (nm, b, c, Some x)))"
      by (simp add: more_inputs_spec_def True b x cj)
    have "\<exists>c. more_inputs_spec m12 api cell nm = Inr (name, b, c, Some x) \<and>
        st' = with_gates st (gates @ [gate n0 [a, b, c] [y, x, 0]])
          (note_wire (output_vector (bc st)) x wires) deps'"
    proof (cases "js_is_string api cj")
      case True
      then show ?thesis using c by (intro exI [of _ 0]) (simp add: spec st2')
    next
      case False
      with c obtain v where "connection api cell ''C'' = Inr v" and
        "set_gate_in 2 v st2 = Inr st'" and "name = nm"
        by (auto simp: rbind_eq_Inr)
      then show ?thesis using False by (intro exI [of _ v]) (simp add: spec st2' slot)
    qed
    then obtain c where "more_inputs_spec m12 api cell nm = Inr (name, b, c, Some x)" and
      "st' = with_gates st (gates @ [gate n0 [a, b, c] [y, x, 0]])
          (note_wire (output_vector (bc st)) x wires) deps'"
      by (elim exE conjE)
    with dp show ?thesis by (intro disjI2 exI conjI)
  next
    case False
    define third where "third = (if nm = ''MUX'' \<or> nm = ''NMUX'' then Some ''S''
      else if m12 \<and> (nm = ''AOI3'' \<or> nm = ''OAI3'') then Some ''C'' else None)"
    let ?st = "\<lambda>c. with_gates st (gates @ [gate n0 [a, b, c] [y, 0, 0]]) wires deps"
    have parse: "(case third of None \<Rightarrow> Inr (nm, ?st 0)
        | Some p \<Rightarrow> rbind (connection api cell p) (\<lambda>c. Inr (nm, ?st c))) = Inr (name, st')"
      using assms(1) False unfolding eqs third_def by (simp add: slot split: if_split_asm; auto)
    have spec: "more_inputs_spec m12 api cell nm = (case third of None \<Rightarrow> Inr (nm, b, 0, None)
        | Some p \<Rightarrow> rbind (connection api cell p) (\<lambda>c. Inr (nm, b, c, None)))"
      using False unfolding eqs third_def by (simp; auto)
    have "\<exists>c. more_inputs_spec m12 api cell nm = Inr (name, b, c, None) \<and> name = nm \<and> st' = ?st c"
      using parse unfolding spec by (cases third) (auto simp: rbind_eq_Inr)
    with False show ?thesis by metis
  qed
qed

lemma parse_gate_effect:
  assumes "counts_ok st" and "parse_gate m12 api cell nm st = Inr st'"
  shows "\<exists>g outs. gate_spec m12 api cell nm = Inr g \<and> gate_added g outs st st'" and "counts_ok st'"
proof -
  let ?gates = "gate_vector (bc st)" and ?wires = "wire_vector (bc st)"
  let ?note = "note_wire (output_vector (bc st))"
  from assms(2) obtain y st1 a st2 name st3 st4 where
    yc: "connection api cell ''Y'' = Inr y" and
    y: "record_output 0 y (ensure_gate_slot st) = Inr st1" and
    ac: "connection api cell ''A'' = Inr a" and
    a: "set_gate_in 0 a st1 = Inr st2" and
    more: "(if nm \<noteq> ''NOT'' then parse_more_inputs m12 api cell nm st2 else Inr (nm, st2))
           = Inr (name, st3)" and
    nm: "update_gate (\<lambda>g. g\<lparr>gs_name := name\<rparr>) st3 = Inr st4" and
    st': "st' = st4\<lparr>gate_index := gate_index st4 + 1\<rparr>"
    by (auto simp: parse_gate_def result_simps)
  note fresh = ensure_gate_slot_fresh [OF assms(1) y]
  note slot = update_gate_slot [OF fresh(2)] set_gate_in_slot [OF fresh(2)]
    record_output_slot [OF fresh(2)]
  from y obtain deps where
    deps: "note_dependency (gate_index st) y (dependency_vector (bc st)) = Inr deps" and
    st2: "st2 = with_gates st (?gates @ [gate [] [a, 0, 0] [y, 0, 0]]) (?note y ?wires) deps"
    using a by (auto simp: fresh(1) slot empty_gate_def numeral_3_eq_3)
  let ?spec = "if nm \<noteq> ''NOT'' then more_inputs_spec m12 api cell nm else Inr (nm, 0, 0, None)"
  have "(\<exists>b c. ?spec = Inr (name, b, c, None) \<and> name \<noteq> ''fa'' \<and>
            st3 = with_gates st (?gates @ [gate [] [a, b, c] [y, 0, 0]]) (?note y ?wires) deps) \<or>
         (\<exists>b c x deps'. ?spec = Inr (name, b, c, Some x) \<and>
            note_dependency (gate_index st) x deps = Inr deps' \<and>
            st3 = with_gates st (?gates @ [gate [] [a, b, c] [y, x, 0]])
                    (?note x (?note y ?wires)) deps')"
  proof (cases "nm = ''NOT''")
    case True
    then show ?thesis using more st2 by auto
  next
    case False
    with more have "parse_more_inputs m12 api cell nm st2 = Inr (name, st3)" by simp
    from parse_more_inputs_effect [OF this [unfolded st2] fresh(2)] False show ?thesis
      by simp
  qed
  then have "\<exists>g outs. gate_spec m12 api cell nm = Inr g \<and> gate_added g outs st st'"
  proof (elim disjE exE conjE)
    fix b c
    assume spec: "?spec = Inr (name, b, c, None)" and "name \<noteq> ''fa''" and
      st3: "st3 = with_gates st (?gates @ [gate [] [a, b, c] [y, 0, 0]]) (?note y ?wires) deps"
    then have "gate_added (gate name [a, b, c] [y, 0, 0]) [y] st st'"
      using nm deps by (auto simp: gate_added_def st' slot)
    moreover have "gate_spec m12 api cell nm = Inr (gate name [a, b, c] [y, 0, 0])"
      unfolding gate_spec_def yc ac rbind_Inr spec by simp
    ultimately show ?thesis by blast
  next
    fix b c x deps'
    assume spec: "?spec = Inr (name, b, c, Some x)" and
      "note_dependency (gate_index st) x deps = Inr deps'" and
      st3: "st3 = with_gates st (?gates @ [gate [] [a, b, c] [y, x, 0]])
              (?note x (?note y ?wires)) deps'"
    then have "gate_added (gate name [a, b, c] [y, x, 0]) [y, x] st st'"
      using nm deps by (auto simp: gate_added_def st' slot)
    moreover have "gate_spec m12 api cell nm = Inr (gate name [a, b, c] [y, x, 0])"
      unfolding gate_spec_def yc ac rbind_Inr spec by simp
    ultimately show ?thesis by blast
  qed
  then show "\<exists>g outs. gate_spec m12 api cell nm = Inr g \<and> gate_added g outs st st'" .
  with assms(1) fresh(3) show "counts_ok st'"
    by (auto simp: counts_ok_def gate_added_def)
qed

section \<open>The dependency vector and the wires\<close>

lemma note_dependency_Inr:
  assumes "note_dependency gi b deps = Inr deps'"
  shows "length deps \<le> length deps'" and "unat b < length deps'" and "deps' ! unat b = gi"
    and "n < length deps' \<Longrightarrow> n \<noteq> unat b \<Longrightarrow>
         deps' ! n = (if n < length deps then deps ! n else 0)"
proof -
  let ?r = "if length deps \<le> unat b then vec_resize (unat (b + 1)) 0 deps else deps"
  have set: "deps' = ?r[unat b := gi]" and lt: "unat b < length ?r"
    using assms by (auto simp: note_dependency_def Let_def result_simps)
  show "unat b < length deps'" and "deps' ! unat b = gi"
    using set lt by auto
  show "length deps \<le> length deps'"
    using set lt by (auto split: if_splits)
  show "n < length deps' \<Longrightarrow> n \<noteq> unat b \<Longrightarrow>
         deps' ! n = (if n < length deps then deps ! n else 0)"
    using set lt by (auto simp: nth_vec_resize split: if_splits)
qed

text \<open>The dependency vector cannot index the largest bit number: the size wraps to 0.\<close>

lemma note_dependency_max:
  assumes "length deps < 2 ^ 32"
  shows "note_dependency gi (- 1) deps = Inl IndexOutOfRange"
proof -
  have "unat (- 1 :: uint) = 2 ^ 32 - 1"
    by (simp add: unsigned_minus_1_eq_mask mask_eq_exp_minus_1)
  then show ?thesis
    using assms by (auto simp: note_dependency_def vec_set_def Let_def vec_resize_def)
qed

lemma note_dependency_length:
  assumes "note_dependency gi b deps = Inr deps'" and "length deps < 2 ^ 32"
  shows "length deps' < 2 ^ 32"
proof -
  have "unat (b + 1) < 2 ^ LENGTH(32)" by (rule unsigned_less)
  with assms show ?thesis
    by (auto simp: note_dependency_def Let_def result_simps split: if_splits)
qed

lemma rfold_note_dependency_length:
  assumes "rfold (note_dependency gi) outs deps = Inr deps'" and "length deps < 2 ^ 32"
  shows "length deps' < 2 ^ 32"
  by (rule rfold_invariant [OF assms(1), where P = "\<lambda>d. length d < 2 ^ 32"])
     (use assms(2) note_dependency_length in blast)+

lemma rfold_note_dependency:
  assumes "rfold (note_dependency gi) outs deps = Inr deps'"
  shows "length deps \<le> length deps'"
    and "\<forall>b \<in> set outs. unat b < length deps' \<and> deps' ! unat b = gi"
    and "\<forall>n < length deps'. n \<notin> unat ` set outs \<longrightarrow>
           deps' ! n = (if n < length deps then deps ! n else 0)"
proof -
  have "length deps \<le> length deps' \<and>
    (\<forall>b \<in> set outs. unat b < length deps' \<and> deps' ! unat b = gi) \<and>
    (\<forall>n < length deps'. n \<notin> unat ` set outs \<longrightarrow>
       deps' ! n = (if n < length deps then deps ! n else 0))"
    using assms
  proof (induction outs arbitrary: deps)
    case Nil
    then show ?case by simp
  next
    case (Cons b outs)
    then obtain deps1 where d1: "note_dependency gi b deps = Inr deps1" and
      d2: "rfold (note_dependency gi) outs deps1 = Inr deps'"
      by (auto simp: result_simps)
    note IH = Cons.IH [OF d2] and fst = note_dependency_Inr [OF d1]
    have "unat b < length deps' \<and> deps' ! unat b = gi"
      using IH fst(2,3) by (cases "unat b \<in> unat ` set outs") auto
    moreover have "deps' ! n = (if n < length deps then deps ! n else 0)"
      if "n < length deps'" "n \<notin> unat ` set (b # outs)" for n
    proof -
      have "deps' ! n = (if n < length deps1 then deps1 ! n else 0)"
        using IH that by auto
      also have "\<dots> = (if n < length deps then deps ! n else 0)"
        using fst(1) fst(4) [of n] that by auto
      finally show ?thesis .
    qed
    ultimately show ?case
      using IH fst(1) by auto
  qed
  then show "length deps \<le> length deps'"
    and "\<forall>b \<in> set outs. unat b < length deps' \<and> deps' ! unat b = gi"
    and "\<forall>n < length deps'. n \<notin> unat ` set outs \<longrightarrow>
           deps' ! n = (if n < length deps then deps ! n else 0)"
    by blast+
qed

lemma note_wire_eq:
  "note_wire outputs b wires = (if b \<notin> set outputs \<and> b \<notin> set wires then wires @ [b] else wires)"
  by (simp add: note_wire_def find_idx_eq_length)

lemma set_fold_note_wire:
  "set (fold (note_wire outputs) outs wires) = set wires \<union> (set outs - set outputs)"
  by (induction outs arbitrary: wires) (auto simp: note_wire_eq)

lemma distinct_fold_note_wire:
  "distinct wires \<Longrightarrow> distinct (fold (note_wire outputs) outs wires)"
  by (induction outs arbitrary: wires) (auto simp: note_wire_eq)

section \<open>The invariant of the netlist\<close>

text \<open>Gate number \<open>k\<close> (counted from 0) drives bit \<open>b\<close>.\<close>

definition drives :: "GateStruct list \<Rightarrow> nat \<Rightarrow> uint \<Rightarrow> bool" where
  "drives gates k b \<longleftrightarrow>
     k < length gates \<and> (gs_out (gates ! k) ! 0 = b \<or> gs_out (gates ! k) ! 1 = b)"

definition deps_ok :: "GateStruct list \<Rightarrow> uint list \<Rightarrow> bool" where
  "deps_ok gates deps \<longleftrightarrow>
     length deps < 2 ^ 32 \<and>
     (\<forall>k < length gates. unat (gs_out (gates ! k) ! 0) < length deps \<and>
        k < unat (deps ! unat (gs_out (gates ! k) ! 0))) \<and>
     (\<forall>b. unat b < length deps \<longrightarrow> deps ! unat b \<noteq> 0 \<longrightarrow>
        drives gates (unat (deps ! unat b) - 1) b)"

definition netlist_inv :: "ParsedBC \<Rightarrow> bool" where
  "netlist_inv b \<longleftrightarrow>
     distinct (wire_vector b) \<and>
     length (DFF_Q_vector b) = length (DFF_D_vector b) \<and>
     (\<forall>g \<in> set (gate_vector b). length (gs_in g) = 3 \<and> length (gs_out g) = 3 \<and>
        gs_out g ! 0 \<in> set (wire_vector b) \<union> set (output_vector b) \<and>
        (gs_name g = ''fa'' \<longrightarrow> gs_out g ! 1 \<in> set (wire_vector b) \<union> set (output_vector b))) \<and>
     (\<forall>w \<in> set (wire_vector b). \<exists>k. drives (gate_vector b) k w) \<and>
     deps_ok (gate_vector b) (dependency_vector b)"

lemma drives_append: "drives gates k b \<Longrightarrow> drives (gates @ [g]) k b"
  by (auto simp: drives_def nth_append)

lemma deps_ok_append:
  assumes "deps_ok gates deps"
    and gi: "unat gi = Suc (length gates)"
    and outs: "outs = [gs_out g ! 0] \<or> outs = [gs_out g ! 0, gs_out g ! 1]"
    and deps': "rfold (note_dependency gi) outs deps = Inr deps'"
  shows "deps_ok (gates @ [g]) deps'"
  unfolding deps_ok_def
proof (intro conjI allI impI)
  show "length deps' < 2 ^ 32"
    using assms(1) rfold_note_dependency_length [OF deps'] by (simp add: deps_ok_def)
next
  note nd = rfold_note_dependency [OF deps']
  fix k
  assume k: "k < length (gates @ [g])"
  let ?b = "gs_out ((gates @ [g]) ! k) ! 0"
  show "unat ?b < length deps'" and "k < unat (deps' ! unat ?b)"
  proof (atomize (full), cases "?b \<in> set outs")
    case True
    then show "unat ?b < length deps' \<and> k < unat (deps' ! unat ?b)"
      using nd(2) gi k by auto
  next
    case False
    then have k': "k < length gates"
      using k outs by (auto simp: nth_append split: if_splits)
    with assms(1) have old: "unat ?b < length deps" "k < unat (deps ! unat ?b)"
      by (auto simp: deps_ok_def nth_append)
    with nd(1) have "unat ?b < length deps'" by simp
    moreover have "unat ?b \<notin> unat ` set outs"
      using False by simp
    ultimately show "unat ?b < length deps' \<and> k < unat (deps' ! unat ?b)"
      using nd(3) old by auto
  qed
next
  note nd = rfold_note_dependency [OF deps']
  fix b :: uint
  assume b: "unat b < length deps'" "deps' ! unat b \<noteq> 0"
  show "drives (gates @ [g]) (unat (deps' ! unat b) - 1) b"
  proof (cases "b \<in> set outs")
    case True
    then have "deps' ! unat b = gi" using nd(2) by blast
    with True outs gi show ?thesis by (auto simp: drives_def)
  next
    case False
    then have "unat b \<notin> unat ` set outs" by simp
    with nd(3) b have "unat b < length deps" and eq: "deps' ! unat b = deps ! unat b"
      by (auto split: if_splits)
    with b assms(1) have "drives gates (unat (deps ! unat b) - 1) b"
      by (auto simp: deps_ok_def)
    then show ?thesis by (simp add: eq drives_append)
  qed
qed

lemma gate_added_inv:
  assumes "netlist_inv (bc st)" and "counts_ok st" and "counts_ok st'" and "gate_added g outs st st'"
  shows "netlist_inv (bc st')"
proof -
  let ?gates = "gate_vector (bc st)"
  obtain deps where
    outs: "outs = [gs_out g ! 0] \<and> gs_name g \<noteq> ''fa'' \<or> outs = [gs_out g ! 0, gs_out g ! 1]" and
    lens: "length (gs_in g) = 3" "length (gs_out g) = 3" and
    deps: "rfold (note_dependency (gate_index st)) outs (dependency_vector (bc st)) = Inr deps" and
    st': "st' = (with_gates st (?gates @ [g])
        (fold (note_wire (output_vector (bc st))) outs (wire_vector (bc st))) deps)
        \<lparr>gate_index := gate_index st + 1\<rparr>"
    using assms(4) unfolding gate_added_def by blast
  have "Suc (length ?gates) < 2 ^ 32"
    using assms(3) by (simp add: counts_ok_def st')
  then have gi: "unat (gate_index st) = Suc (length ?gates)"
    using assms(2) unat_pred_Suc(1) by (auto simp: counts_ok_def)
  have dff: "DFF_Q_vector (bc st') = DFF_Q_vector (bc st)" "DFF_D_vector (bc st') = DFF_D_vector (bc st)"
    by (simp_all add: st' with_gates_def)
  let ?wires = "fold (note_wire (output_vector (bc st))) outs (wire_vector (bc st))"
  have new: "drives (?gates @ [g]) (length ?gates) w" if "w \<in> set outs" for w
    using that outs by (auto simp: drives_def)
  have wires: "\<forall>w \<in> set ?wires. \<exists>k. drives (?gates @ [g]) k w"
    using assms(1) new unfolding set_fold_note_wire netlist_inv_def by (blast intro: drives_append)
  have gates: "gs_out h ! 0 \<in> set ?wires \<union> set (output_vector (bc st))"
    "gs_name h = ''fa'' \<Longrightarrow> gs_out h ! 1 \<in> set ?wires \<union> set (output_vector (bc st))"
    "length (gs_in h) = 3" "length (gs_out h) = 3"
    if "h \<in> set (?gates @ [g])" for h
    using that assms(1) outs lens unfolding set_fold_note_wire netlist_inv_def by auto
  have "deps_ok (?gates @ [g]) deps"
    using assms(1) gi deps outs by (intro deps_ok_append) (auto simp: netlist_inv_def)
  moreover have "distinct ?wires"
    using assms(1) by (simp add: netlist_inv_def distinct_fold_note_wire)
  moreover have "length (DFF_Q_vector (bc st)) = length (DFF_D_vector (bc st))"
    using assms(1) by (simp add: netlist_inv_def)
  ultimately show ?thesis
    using wires gates unfolding netlist_inv_def dff by (simp add: st')
qed

section \<open>The netlist as a function of the document\<close>

text \<open>
  What the document says, without the parser's state: the bits of a port in
  one direction, the name of a cell, the gate a cell describes. A parsed
  netlist lists exactly these, in document order.
\<close>

definition port_direction :: "'j json_api \<Rightarrow> 'j \<Rightarrow> string option" where
  "port_direction api port_json = Option.bind (js_key api port_json ''direction'') (js_string api)"

definition port_bits :: "'j json_api \<Rightarrow> string \<Rightarrow> 'j \<Rightarrow> uint list" where
  "port_bits api direction port_json =
     (if port_direction api port_json = Some direction
      then (case Option.bind (js_key api port_json ''bits'') (js_ints api) of
              None \<Rightarrow> [] | Some bits \<Rightarrow> map word_of_int bits)
      else [])"

definition cell_name :: "'j json_api \<Rightarrow> 'j \<Rightarrow> parser_error + string" where
  "cell_name api cell_json =
     rbind (json_call (js_key api cell_json ''type'')) (\<lambda>t.
     rbind (json_call (js_string api t)) (\<lambda>cell_type.
     rbind (strip_cell_type cell_type) (\<lambda>stripped. Inr (tfhe_gate_name stripped))))"

definition is_dff :: "'j json_api \<Rightarrow> 'j \<Rightarrow> bool" where
  "is_dff api cell_json \<longleftrightarrow> cell_name api cell_json = Inr ''SDFF_PP0''"

definition cell_gate :: "bool \<Rightarrow> 'j json_api \<Rightarrow> 'j \<Rightarrow> parser_error + GateStruct" where
  "cell_gate m12 api cell_json = rbind (cell_name api cell_json) (gate_spec m12 api cell_json)"

definition section_list :: "'j json_api \<Rightarrow> string \<Rightarrow> 'j \<Rightarrow> 'j list" where
  "section_list api key j = (case js_key api j key of None \<Rightarrow> [] | Some s \<Rightarrow> js_range api s)"

definition all_ports :: "'j json_api \<Rightarrow> 'j \<Rightarrow> 'j list" where
  "all_ports api netlist = concat (map (section_list api ''ports'') (section_list api ''modules'' netlist))"

definition all_cells :: "'j json_api \<Rightarrow> 'j \<Rightarrow> 'j list" where
  "all_cells api netlist = concat (map (section_list api ''cells'') (section_list api ''modules'' netlist))"

definition lists_document :: "bool \<Rightarrow> 'j json_api \<Rightarrow> 'j list \<Rightarrow> 'j list \<Rightarrow> ParsedBC \<Rightarrow> bool" where
  "lists_document m12 api ports cells b \<longleftrightarrow>
     input_vector b = concat (map (port_bits api ''input'') ports) \<and>
     output_vector b = concat (map (port_bits api ''output'') ports) \<and>
     map Inr (gate_vector b) = map (cell_gate m12 api) (filter (\<lambda>c. \<not> is_dff api c) cells) \<and>
     map Inr (DFF_Q_vector b) = map (\<lambda>c. connection api c ''Q'') (filter (is_dff api) cells) \<and>
     map Inr (DFF_D_vector b) = map (\<lambda>c. connection api c ''D'') (filter (is_dff api) cells) \<and>
     (\<forall>p \<in> set ports. port_direction api p \<in> {Some ''input'', Some ''output''})"

text \<open>What holds between two ports or cells.\<close>

definition parser_inv :: "bool \<Rightarrow> 'j json_api \<Rightarrow> 'j list \<Rightarrow> 'j list \<Rightarrow> parser_state \<Rightarrow> bool" where
  "parser_inv m12 api ports cells st \<longleftrightarrow>
     counts_ok st \<and> netlist_inv (bc st) \<and> lists_document m12 api ports cells (bc st) \<and>
     direct_port_pair_vector (bc st) = []"

lemma parser_inv_initial: "parser_inv m12 api [] [] initial_state"
  by (simp add: parser_inv_def initial_state_def counts_ok_def netlist_inv_def deps_ok_def
      lists_document_def)

lemma parse_port_cases:
  assumes "parse_port api p st = Inr st'"
  obtains bits where "port_direction api p = Some ''input''" and "port_bits api ''input'' p = bits"
      and "port_bits api ''output'' p = []"
      and "st' = st\<lparr>bc := (bc st)\<lparr>input_vector := input_vector (bc st) @ bits\<rparr>\<rparr>"
  | bits where "port_direction api p = Some ''output''" and "port_bits api ''output'' p = bits"
      and "port_bits api ''input'' p = []"
      and "st' = st\<lparr>bc := (bc st)\<lparr>output_vector := output_vector (bc st) @ bits\<rparr>\<rparr>"
proof -
  from assms obtain d dir where
    d: "js_key api p ''direction'' = Some d" "js_string api d = Some dir"
    and rest: "(if dir = ''input'' then
       rbind (json_call (js_key api p ''bits'')) (\<lambda>b.
       rbind (json_call (js_ints api b)) (\<lambda>bits.
       Inr (st\<lparr>bc := (bc st)\<lparr>input_vector := input_vector (bc st) @ map word_of_int bits\<rparr>\<rparr>)))
     else if dir = ''output'' then
       rbind (json_call (js_key api p ''bits'')) (\<lambda>b.
       rbind (json_call (js_ints api b)) (\<lambda>bits.
       Inr (st\<lparr>bc := (bc st)\<lparr>output_vector := output_vector (bc st) @ map word_of_int bits\<rparr>\<rparr>)))
     else Inl PortDefinitionError) = Inr st'"
    unfolding parse_port_def rbind_eq_Inr json_call_eq_Inr by blast
  have dir: "port_direction api p = Some dir"
    by (simp add: port_direction_def d)
  consider "dir = ''input''" | "dir = ''output''"
    using rest by (auto split: if_splits)
  then show thesis
  proof cases
    case 1
    with rest show thesis
      by (auto simp: result_simps port_bits_def dir intro!: that(1))
  next
    case 2
    with rest show thesis
      by (auto simp: result_simps port_bits_def dir intro!: that(2))
  qed
qed

lemma parse_port_inv:
  assumes "parser_inv m12 api ports cells st" and "parse_port api p st = Inr st'"
  shows "parser_inv m12 api (ports @ [p]) cells st'"
  using assms(2)
proof (cases rule: parse_port_cases)
  case (1 bits)
  then show ?thesis
    using assms(1) by (auto simp: parser_inv_def counts_ok_def netlist_inv_def lists_document_def)
next
  case (2 bits)
  then show ?thesis
    using assms(1) by (auto simp: parser_inv_def counts_ok_def netlist_inv_def lists_document_def)
qed

lemma parse_cell_cases:
  assumes "parse_cell m12 api c st = Inr st'"
  obtains "is_dff api c" and "parse_dff api c st = Inr st'"
  | nm where "\<not> is_dff api c" and "cell_name api c = Inr nm"
      and "parse_gate m12 api c nm st = Inr st'"
proof -
  from assms obtain nm where nm: "cell_name api c = Inr nm" and
    "(if nm = ''SDFF_PP0'' then parse_dff api c st else parse_gate m12 api c nm st) = Inr st'"
    by (auto simp: parse_cell_def cell_name_def result_simps Let_def)
  then show thesis
    using that by (auto simp: is_dff_def split: if_splits)
qed

lemma parse_cell_inv:
  assumes "parser_inv m12 api ports cells st" and "parse_cell m12 api c st = Inr st'"
  shows "parser_inv m12 api ports (cells @ [c]) st'"
  using assms(2)
proof (cases rule: parse_cell_cases)
  case 1
  then show ?thesis
    using assms(1)
    by (auto simp: parser_inv_def counts_ok_def netlist_inv_def lists_document_def parse_dff_def
        result_simps)
next
  case (2 nm)
  have inv: "counts_ok st" "netlist_inv (bc st)" "lists_document m12 api ports cells (bc st)"
    "direct_port_pair_vector (bc st) = []"
    using assms(1) by (auto simp: parser_inv_def)
  obtain g outs where g: "gate_spec m12 api c nm = Inr g" and added: "gate_added g outs st st'"
    using parse_gate_effect(1) [OF inv(1) 2(3)] by blast
  have counts: "counts_ok st'" by (rule parse_gate_effect(2) [OF inv(1) 2(3)])
  moreover have "netlist_inv (bc st')"
    by (rule gate_added_inv [OF inv(2,1) counts added])
  moreover have "cell_gate m12 api c = Inr g"
    by (simp add: cell_gate_def 2(2) g)
  then have "lists_document m12 api ports (cells @ [c]) (bc st')"
    using inv(3) added 2(1) by (auto simp: gate_added_def lists_document_def with_gates_def)
  moreover have "direct_port_pair_vector (bc st') = []"
    using inv(4) added by (auto simp: gate_added_def with_gates_def)
  ultimately show ?thesis by (simp add: parser_inv_def)
qed

lemma rfold_ghost:
  assumes "rfold f xs s = Inr s'" and "P ys s"
    and "\<And>x ys t t'. P ys t \<Longrightarrow> f x t = Inr t' \<Longrightarrow> P (ys @ g x) t'"
  shows "P (ys @ concat (map g xs)) s'"
  using assms(1,2)
proof (induction xs arbitrary: s ys)
  case Nil
  then show ?case by simp
next
  case (Cons x xs)
  then obtain t where "f x s = Inr t" and "rfold f xs t = Inr s'"
    by (auto simp: result_simps)
  with Cons.IH [of t "ys @ g x"] Cons.prems assms(3) show ?case by auto
qed

lemma parse_module_inv:
  assumes "parser_inv m12 api ports cells st" and "parse_module m12 api m st = Inr st'"
  shows "parser_inv m12 api (ports @ section_list api ''ports'' m)
           (cells @ section_list api ''cells'' m) st'"
proof -
  from assms(2) obtain ps st1 cs where
    ps: "js_key api m ''ports'' = Some ps" "rfold (parse_port api) (js_range api ps) st = Inr st1" and
    cs: "js_key api m ''cells'' = Some cs" "rfold (parse_cell m12 api) (js_range api cs) st1 = Inr st'"
    by (auto simp: parse_module_def result_simps)
  have "parser_inv m12 api (ports @ js_range api ps) cells st1"
    using rfold_ghost [OF ps(2), of "\<lambda>ps. parser_inv m12 api ps cells" ports "\<lambda>p. [p]"]
      assms(1) parse_port_inv by (fastforce simp: concat_map_singleton)
  then have "parser_inv m12 api (ports @ js_range api ps) (cells @ js_range api cs) st'"
    using rfold_ghost [OF cs(2), of "parser_inv m12 api (ports @ js_range api ps)" cells "\<lambda>p. [p]"]
      parse_cell_inv by (fastforce simp: concat_map_singleton)
  then show ?thesis by (simp add: section_list_def ps(1) cs(1))
qed

lemma parse_modules_inv:
  assumes "rfold (parse_module m12 api) ms st = Inr st'" and "parser_inv m12 api ports cells st"
  shows "parser_inv m12 api (ports @ concat (map (section_list api ''ports'') ms))
           (cells @ concat (map (section_list api ''cells'') ms)) st'"
  using assms
proof (induction ms arbitrary: st ports cells)
  case Nil
  then show ?case by simp
next
  case (Cons m ms)
  then obtain t where "parse_module m12 api m st = Inr t" and "rfold (parse_module m12 api) ms t = Inr st'"
    by (auto simp: result_simps)
  with Cons.IH [of t] parse_module_inv [OF Cons.prems(2)] show ?case by fastforce
qed

lemma parse_netlist_state:
  assumes "parse_netlist m12 api jsonstring = Inr b"
  obtains netlist st where "js_parse api jsonstring = Some netlist"
    and "parser_inv m12 api (all_ports api netlist) (all_cells api netlist) st"
    and "b = finish_netlist (bc st)"
proof -
  from assms obtain netlist ms st where
    "js_parse api jsonstring = Some netlist" "js_key api netlist ''modules'' = Some ms"
    "rfold (parse_module m12 api) (js_range api ms) initial_state = Inr st"
    "b = finish_netlist (bc st)"
    by (auto simp: parse_netlist_def result_simps)
  with parse_modules_inv [OF _ parser_inv_initial, of m12 api "js_range api ms" st] that
  show thesis by (simp add: all_ports_def all_cells_def section_list_def)
qed

lemma direct_pairs_eq:
  "direct_pairs outputs qs = map (\<lambda>q. (q, q)) (filter (\<lambda>q. q \<in> set outputs) qs)"
  by (induction qs) (auto simp: find_idx_eq_length nth_find_idx)

lemma netlist_inv_finish: "netlist_inv (finish_netlist b) \<longleftrightarrow> netlist_inv b"
  by (simp add: netlist_inv_def finish_netlist_def)

lemma parse_netlist_inv: "parse_netlist m12 api jsonstring = Inr b \<Longrightarrow> netlist_inv b"
  by (erule parse_netlist_state) (simp add: parser_inv_def netlist_inv_finish)

lemma parse_netlist_document:
  assumes "parse_netlist m12 api jsonstring = Inr b" and "js_parse api jsonstring = Some netlist"
  shows "\<exists>st :: parser_state. lists_document m12 api (all_ports api netlist) (all_cells api netlist) (bc st) \<and>
           b = finish_netlist (bc st)"
  using assms(1) by (rule parse_netlist_state) (use assms(2) in \<open>auto simp: parser_inv_def\<close>)

section \<open>A concrete document\<close>

text \<open>
  A JSON value type with the accessors the parser calls, and the netlist of an
  AND gate built from a NAND and an inverter, for the witnesses.
\<close>

datatype json = JNum int | JStr string | JArr "json list" | JObj "(string \<times> json) list"

definition sample_api :: "json \<Rightarrow> json json_api" where
  "sample_api document =
     \<lparr>js_parse = (\<lambda>s. if s = [] then None else Some document),
      js_key = (\<lambda>j k. case j of JObj kvs \<Rightarrow> map_of kvs k | _ \<Rightarrow> None),
      js_idx = (\<lambda>j i. case j of JArr xs \<Rightarrow> if i < length xs then Some (xs ! i) else None | _ \<Rightarrow> None),
      js_range = (\<lambda>j. case j of JObj kvs \<Rightarrow> map snd kvs | JArr xs \<Rightarrow> xs | _ \<Rightarrow> [j]),
      js_string = (\<lambda>j. case j of JStr s \<Rightarrow> Some s | _ \<Rightarrow> None),
      js_uint = (\<lambda>j. case j of JNum n \<Rightarrow> Some (word_of_int n) | _ \<Rightarrow> None),
      js_ints = (\<lambda>j. case j of JArr xs \<Rightarrow>
          (if list_all (\<lambda>x. case x of JNum _ \<Rightarrow> True | _ \<Rightarrow> False) xs
           then Some (map (\<lambda>x. case x of JNum n \<Rightarrow> n | _ \<Rightarrow> 0) xs) else None) | _ \<Rightarrow> None),
      js_is_string = (\<lambda>j. case j of JStr _ \<Rightarrow> True | _ \<Rightarrow> False)\<rparr>"

definition sample_port :: "string \<Rightarrow> int list \<Rightarrow> json" where
  "sample_port direction bits =
     JObj [(''direction'', JStr direction), (''bits'', JArr (map JNum bits))]"

definition sample_cell :: "string \<Rightarrow> (string \<times> int) list \<Rightarrow> json" where
  "sample_cell cell_type conns =
     JObj [(''type'', JStr cell_type),
           (''connections'', JObj (map (\<lambda>(p, n). (p, JArr [JNum n])) conns))]"

definition sample_module :: "json list \<Rightarrow> json list \<Rightarrow> json" where
  "sample_module ports cells = JObj [(''ports'', JArr ports), (''cells'', JArr cells)]"

definition and_document :: json where
  "and_document = JObj [(''modules'', JArr [sample_module
     [sample_port ''input'' [3, 2], sample_port ''output'' [5]]
     [sample_cell ''$_NAND_'' [(''A'', 2), (''B'', 3), (''Y'', 4)],
      sample_cell ''$_NOT_'' [(''A'', 4), (''Y'', 5)]]])]"

definition and_netlist :: ParsedBC where
  "and_netlist =
     \<lparr>input_vector = [2, 3], output_vector = [5], DFF_Q_vector = [], DFF_D_vector = [],
      wire_vector = [4],
      gate_vector = [gate ''NAND'' [2, 3, 0] [4, 0, 0], gate ''NOT'' [4, 0, 0] [5, 0, 0]],
      direct_port_pair_vector = [],
      dependency_vector = [0, 0, 0, 0, 1, 2]\<rparr>"

lemmas sample_defs = sample_api_def sample_port_def sample_cell_def sample_module_def
  and_document_def and_netlist_def

lemma and_document_parsed: "parse_netlist False (sample_api and_document) ''{}'' = Inr and_netlist"
  by code_simp

section \<open>Properties\<close>

text \<open>C11. Every netlist the constructor returns is well formed: the port and wire vectors are
  sorted, no wire occurs twice, the flip-flop vectors have one length, every gate has its three
  input and three output slots and its outputs are wires or output ports, every wire is driven by
  a gate, and the dependency vector names a driver for the output of every gate.\<close>

theorem parse_netlist_wf:
  assumes "parse_netlist m12 api jsonstring = Inr b"
  shows "netlist_inv b \<and> sorted (input_vector b) \<and> sorted (output_vector b) \<and>
         sorted (wire_vector b)"
  using assms
proof (rule parse_netlist_state)
  fix netlist st
  assume "parser_inv m12 api (all_ports api netlist) (all_cells api netlist) st"
    and "b = finish_netlist (bc st)"
  then show ?thesis
    by (simp add: parser_inv_def netlist_inv_finish) (simp add: finish_netlist_def)
qed

theorem parse_netlist_wf_witness:
  "parse_netlist False (sample_api and_document) ''{}'' = Inr and_netlist \<and>
   netlist_inv and_netlist \<and> sorted (wire_vector and_netlist)"
  using parse_netlist_wf [OF and_document_parsed] and_document_parsed by simp

text \<open>C12. The netlist is a function of the document: the input and output vectors are the sorted
  bits of the ports of that direction, the gates are the gates that the cells other than
  flip-flops describe, in document order, and the flip-flop vectors are the Q and D bits of the
  flip-flop cells. Every port has the direction input or output.\<close>

theorem parse_netlist_lists_document:
  assumes "parse_netlist m12 api jsonstring = Inr b" and "js_parse api jsonstring = Some netlist"
  shows "input_vector b = sort (concat (map (port_bits api ''input'') (all_ports api netlist))) \<and>
         output_vector b = sort (concat (map (port_bits api ''output'') (all_ports api netlist))) \<and>
         map Inr (gate_vector b) =
           map (cell_gate m12 api) (filter (\<lambda>c. \<not> is_dff api c) (all_cells api netlist)) \<and>
         map Inr (DFF_Q_vector b) =
           map (\<lambda>c. connection api c ''Q'') (filter (is_dff api) (all_cells api netlist)) \<and>
         map Inr (DFF_D_vector b) =
           map (\<lambda>c. connection api c ''D'') (filter (is_dff api) (all_cells api netlist))"
  using parse_netlist_document [OF assms]
  by (elim exE conjE) (simp add: lists_document_def finish_netlist_def)

lemma sample_parse: "js_parse (sample_api and_document) ''{}'' = Some and_document"
  by (simp add: sample_api_def)

theorem parse_netlist_lists_document_witness:
  "input_vector and_netlist = sort (concat (map (port_bits (sample_api and_document) ''input'')
     (all_ports (sample_api and_document) and_document)))"
  using parse_netlist_lists_document [OF and_document_parsed sample_parse] by (rule conjunct1)

text \<open>The dependency vector identifies the driver of a bit: where only gate number \<open>k\<close> drives
  its output bit, the entry of that bit is \<open>k + 1\<close>, the gate number counted from 1.\<close>

lemma dependency_names_driver:
  assumes "parse_netlist m12 api jsonstring = Inr b" and "k < length (gate_vector b)"
    and "\<And>j. drives (gate_vector b) j (gs_out (gate_vector b ! k) ! 0) \<Longrightarrow> j = k"
  shows "unat (dependency_vector b ! unat (gs_out (gate_vector b ! k) ! 0)) = Suc k"
proof -
  let ?bit = "gs_out (gate_vector b ! k) ! 0"
  have "netlist_inv b"
    by (rule parse_netlist_inv [OF assms(1)])
  then have deps: "deps_ok (gate_vector b) (dependency_vector b)"
    by (simp add: netlist_inv_def)
  with assms(2) have lt: "unat ?bit < length (dependency_vector b)"
    and k: "k < unat (dependency_vector b ! unat ?bit)"
    by (auto simp: deps_ok_def)
  then have "dependency_vector b ! unat ?bit \<noteq> 0" by auto
  with deps lt have "drives (gate_vector b) (unat (dependency_vector b ! unat ?bit) - 1) ?bit"
    by (simp add: deps_ok_def)
  then have "unat (dependency_vector b ! unat ?bit) - 1 = k" by (rule assms(3))
  with k show ?thesis by simp
qed

lemma dependency_names_driver_witness:
  "unat (dependency_vector and_netlist ! 5) = 2"
proof -
  have "drives (gate_vector and_netlist) j 5 \<Longrightarrow> j = 1" for j
    by (cases j) (auto simp: drives_def and_netlist_def nth_Cons split: nat.splits)
  then show ?thesis
    using dependency_names_driver [OF and_document_parsed, of 1] by (simp add: and_netlist_def)
qed

text \<open>A port whose direction is neither input nor output makes the constructor throw, wherever
  the port stands in the document.\<close>

lemma parse_netlist_bad_port:
  assumes "js_parse api jsonstring = Some netlist" and "p \<in> set (all_ports api netlist)"
    and "port_direction api p \<notin> {Some ''input'', Some ''output''}"
  shows "\<exists>e. parse_netlist m12 api jsonstring = Inl e"
proof (cases "parse_netlist m12 api jsonstring")
  case (Inr b)
  then have "port_direction api p \<in> {Some ''input'', Some ''output''}"
    using parse_netlist_document [OF Inr assms(1)] assms(2) by (auto simp: lists_document_def)
  with assms(3) show ?thesis by simp
qed simp

definition bad_document :: json where
  "bad_document = JObj [(''modules'', JArr [sample_module [sample_port ''inout'' [2]] []])]"

lemma parse_netlist_bad_port_witness:
  "\<exists>e. parse_netlist False (sample_api bad_document) ''{}'' = Inl e"
proof (rule parse_netlist_bad_port)
  show "js_parse (sample_api bad_document) ''{}'' = Some bad_document"
    by (simp add: sample_api_def)
  show "sample_port ''inout'' [2] \<in> set (all_ports (sample_api bad_document) bad_document)"
    by (simp add: all_ports_def section_list_def sample_defs bad_document_def)
  show "port_direction (sample_api bad_document) (sample_port ''inout'' [2])
      \<notin> {Some ''input'', Some ''output''}"
    by (simp add: port_direction_def sample_defs)
qed

text \<open>The largest bit number cannot be an output: the size that the dependency vector would need
  wraps around to 0, so no netlist has a gate that drives bit 2 ^ 32 - 1.\<close>

lemma parse_netlist_no_max_bit:
  assumes "parse_netlist m12 api jsonstring = Inr b" and "g \<in> set (gate_vector b)"
  shows "unat (gs_out g ! 0) < 2 ^ 32 - 1"
proof -
  have "netlist_inv b"
    by (rule parse_netlist_inv [OF assms(1)])
  then have "deps_ok (gate_vector b) (dependency_vector b)"
    by (simp add: netlist_inv_def)
  with assms(2) have "unat (gs_out g ! 0) < length (dependency_vector b)"
    and "length (dependency_vector b) < 2 ^ 32"
    by (auto simp: deps_ok_def in_set_conv_nth)
  then show ?thesis by linarith
qed

lemma parse_netlist_no_max_bit_witness:
  "unat (gs_out (gate ''NOT'' [4, 0, 0] [5, 0, 0]) ! 0) < 2 ^ 32 - 1"
  by (rule parse_netlist_no_max_bit [OF and_document_parsed]) (simp add: and_netlist_def)

end
