(* ===== verification/Torus_Gates.thy ===== *)
theory Torus_Gates
  imports Tangor_Prelude
begin

text \<open>
  What a TFHE ciphertext means, and why the constants of the gate codelets are
  the right ones. A bit is carried by the phase of an LWE sample: plus or minus
  the constant \<open>\<mu>\<close> (an eighth of the torus) up to noise. A bootstrapped gate
  takes a linear combination of two samples, adds an offset, and returns a
  fresh encryption of its sign. TFHEpp, cuFHEpp and the FPGA bitstream compute
  it and are not part of the repository; their documented behaviour is the
  contract \<open>homgate_contract\<close>. The lemma \<open>linear_gate_correct\<close> reduces the
  correctness of a gate to a finite check of its constants.
\<close>

section \<open>Samples, phases and encodings\<close>

text \<open>A TLWE: n mask words followed by the body.\<close>

type_synonym 'w tlwe = "'w word list"

definition lwe_phase :: "nat \<Rightarrow> 'w::len word list \<Rightarrow> 'w tlwe \<Rightarrow> 'w word" where
  "lwe_phase n key c = c ! n - (\<Sum>i<n. c ! i * key ! i)"

text \<open>The phase \<open>p\<close> carries bit \<open>b\<close> with noise at most \<open>B\<close>.\<close>

definition carries :: "'w::len word \<Rightarrow> int \<Rightarrow> bool \<Rightarrow> 'w word \<Rightarrow> bool" where
  "carries mu B b p \<longleftrightarrow> \<bar>sint (p - (if b then mu else - mu))\<bar> \<le> B"

definition encodes :: "nat \<Rightarrow> 'w::len word list \<Rightarrow> 'w word \<Rightarrow> int \<Rightarrow> bool \<Rightarrow> 'w tlwe \<Rightarrow> bool" where
  "encodes n key mu B b c \<longleftrightarrow> length c = Suc n \<and> carries mu B b (lwe_phase n key c)"

text \<open>
  The contract of a bootstrapped two-input gate: with margin \<open>M\<close>, the result
  encodes the sign of the linear combination of the phases with the noise \<open>B\<close> of
  a fresh bootstrapping, whatever the noise of the arguments.
\<close>

definition homgate_contract ::
  "nat \<Rightarrow> 'w::len word list \<Rightarrow> 'w word \<Rightarrow> int \<Rightarrow> int \<Rightarrow>
   (int \<Rightarrow> int \<Rightarrow> 'w word \<Rightarrow> 'w tlwe \<Rightarrow> 'w tlwe \<Rightarrow> 'w tlwe) \<Rightarrow> bool" where
  "homgate_contract n key mu B M homgate \<longleftrightarrow>
     (\<forall>ca cb off a b. length a = Suc n \<longrightarrow> length b = Suc n \<longrightarrow>
        (let v = word_of_int ca * lwe_phase n key a + word_of_int cb * lwe_phase n key b + off
         in (M \<le> sint v \<longrightarrow> encodes n key mu B True (homgate ca cb off a b)) \<and>
            (sint v \<le> - M \<longrightarrow> encodes n key mu B False (homgate ca cb off a b))))"

text \<open>
  The parameters of a TFHE level: \<open>\<mu>\<close> is an eighth of the torus, and the noise
  and the margin leave room for a sum of two samples.
\<close>

definition level_ok :: "'w::len word \<Rightarrow> int \<Rightarrow> int \<Rightarrow> bool" where
  "level_ok mu B M \<longleftrightarrow>
     3 \<le> LENGTH('w) \<and> mu = 2 ^ (LENGTH('w) - 3) \<and> 0 \<le> B \<and> 0 < M \<and>
     2 * B + M \<le> 2 ^ (LENGTH('w) - 3)"

lemma encodes_mono: "encodes n key mu B b c \<Longrightarrow> B \<le> B' \<Longrightarrow> encodes n key mu B' b c"
  by (auto simp: encodes_def carries_def)

section \<open>Linear combinations of phases\<close>

definition bit_sign :: "bool \<Rightarrow> int" where
  "bit_sign b = (if b then 1 else - 1)"

text \<open>
  The noiseless combination, in units of \<open>\<mu>\<close>, reduced to the interval from -4
  to 3: the torus has eight such units.
\<close>

definition centre :: "int \<Rightarrow> int" where
  "centre x = (x + 4) mod 8 - 4"

definition gate_sum :: "int \<Rightarrow> int \<Rightarrow> int \<Rightarrow> bool \<Rightarrow> bool \<Rightarrow> int" where
  "gate_sum ca cb off a b = centre (ca * bit_sign a + cb * bit_sign b + off)"

text \<open>The finite check that the constants compute the Boolean function \<open>f\<close>.\<close>

definition gate_constants_ok :: "int \<Rightarrow> int \<Rightarrow> int \<Rightarrow> (bool \<Rightarrow> bool \<Rightarrow> bool) \<Rightarrow> bool" where
  "gate_constants_ok ca cb off f \<longleftrightarrow>
     (\<exists>k > 0. \<bar>ca\<bar> + \<bar>cb\<bar> \<le> 2 * k \<and>
        (\<forall>a \<in> {False, True}. \<forall>b \<in> {False, True}.
           (if f a b then k \<le> gate_sum ca cb off a b \<and> gate_sum ca cb off a b \<le> 4 - k
            else - (4 - k) \<le> gate_sum ca cb off a b \<and> gate_sum ca cb off a b \<le> - k)))"

lemma sint_of_int_small:
  fixes x :: int
  assumes "- (2 ^ (LENGTH('w::len) - 1)) \<le> x" and "x < 2 ^ (LENGTH('w) - 1)"
  shows "sint (word_of_int x :: 'w word) = x"
  using assms by (simp add: sint_sbintrunc' signed_take_bit_int_eq_self)

lemma carriesE:
  assumes "carries mu B b p"
  obtains e where "\<bar>e\<bar> \<le> B" and "p = (if b then mu else - mu) + word_of_int e"
proof
  let ?e = "sint (p - (if b then mu else - mu))"
  show "\<bar>?e\<bar> \<le> B" using assms by (simp add: carries_def)
  have "word_of_int ?e = p - (if b then mu else - mu)" by simp
  then show "p = (if b then mu else - mu) + word_of_int ?e"
    by (metis diff_add_cancel add.commute)
qed

lemma carriesI:
  fixes p :: "'w::len word"
  assumes "p = (if b then mu else - mu) + word_of_int e" and "\<bar>e\<bar> \<le> B"
    and "B < 2 ^ (LENGTH('w) - 1)"
  shows "carries mu B b p"
proof -
  have "sint (word_of_int e :: 'w word) = e"
    using assms(2,3) by (intro sint_of_int_small) auto
  then show ?thesis using assms(1,2) by (simp add: carries_def)
qed

lemma level_unit:
  assumes "level_ok (mu :: 'w::len word) B M"
  shows "mu = word_of_int (2 ^ (LENGTH('w) - 3))"
    and "(2 :: int) ^ (LENGTH('w) - 1) = 4 * 2 ^ (LENGTH('w) - 3)"
    and "word_of_int (8 * 2 ^ (LENGTH('w) - 3)) = (0 :: 'w word)"
    and "2 * B + M \<le> 2 ^ (LENGTH('w) - 3)" and "0 \<le> B" and "0 < M"
proof -
  obtain k where k: "LENGTH('w) = k + 3"
    using assms by (metis level_ok_def le_add_diff_inverse2)
  show "mu = word_of_int (2 ^ (LENGTH('w) - 3))"
    using assms by (simp add: level_ok_def)
  show "(2 :: int) ^ (LENGTH('w) - 1) = 4 * 2 ^ (LENGTH('w) - 3)"
    by (simp add: k numeral_2_eq_2)
  have "word_of_int (8 * 2 ^ (LENGTH('w) - 3)) = (word_of_int (2 ^ LENGTH('w)) :: 'w word)"
    by (simp add: k power_add)
  also have "\<dots> = 0" by simp
  finally show "word_of_int (8 * 2 ^ (LENGTH('w) - 3)) = (0 :: 'w word)" .
  show "2 * B + M \<le> 2 ^ (LENGTH('w) - 3)" and "0 \<le> B" and "0 < M"
    using assms by (auto simp: level_ok_def)
qed

text \<open>A multiple of \<open>\<mu>\<close> can be reduced to its centre.\<close>

lemma centre_word:
  fixes m :: int
  assumes "word_of_int (8 * m) = (0 :: 'w::len word)"
  shows "word_of_int (x * m + e) = (word_of_int (centre x * m + e) :: 'w word)"
proof -
  have "x = centre x + 8 * ((x + 4) div 8)"
    by (simp add: centre_def minus_mult_div_eq_mod [symmetric])
  then have "x * m + e = centre x * m + e + ((x + 4) div 8) * (8 * m)"
    by (metis (no_types, lifting) add.assoc add.commute distrib_right mult.assoc mult.commute)
  then have "word_of_int (x * m + e) =
      (word_of_int (centre x * m + e) + word_of_int ((x + 4) div 8) * word_of_int (8 * m) :: 'w word)"
    by (metis of_int_add of_int_mult)
  then show ?thesis using assms by simp
qed

text \<open>The linear combination of two noisy phases, as an integer in units of \<open>\<mu>\<close> plus noise.\<close>

lemma combination_value:
  fixes mu :: "'w::len word"
  assumes level: "level_ok mu B M" and a: "carries mu B x pa" and b: "carries mu B y pb"
  obtains e where "\<bar>e\<bar> \<le> (\<bar>ca\<bar> + \<bar>cb\<bar>) * B"
    and "word_of_int ca * pa + word_of_int cb * pb + word_of_int off * mu =
         (word_of_int (gate_sum ca cb off x y * 2 ^ (LENGTH('w) - 3) + e) :: 'w word)"
proof -
  let ?m = "2 ^ (LENGTH('w) - 3) :: int"
  note unit = level_unit [OF level]
  from a obtain ea where ea: "\<bar>ea\<bar> \<le> B" "pa = (if x then mu else - mu) + word_of_int ea"
    by (rule carriesE)
  from b obtain eb where eb: "\<bar>eb\<bar> \<le> B" "pb = (if y then mu else - mu) + word_of_int eb"
    by (rule carriesE)
  have pa: "pa = word_of_int (bit_sign x * ?m + ea)" and pb: "pb = word_of_int (bit_sign y * ?m + eb)"
    unfolding ea(2) eb(2) by (simp_all add: unit(1) bit_sign_def)
  let ?e = "ca * ea + cb * eb"
  have "\<bar>?e\<bar> \<le> \<bar>ca\<bar> * \<bar>ea\<bar> + \<bar>cb\<bar> * \<bar>eb\<bar>"
    by (metis abs_mult abs_triangle_ineq)
  also have "\<dots> \<le> \<bar>ca\<bar> * B + \<bar>cb\<bar> * B"
    using ea(1) eb(1) by (intro add_mono mult_left_mono) auto
  finally have noise: "\<bar>?e\<bar> \<le> (\<bar>ca\<bar> + \<bar>cb\<bar>) * B"
    by (simp add: algebra_simps)
  have "word_of_int ca * pa + word_of_int cb * pb + word_of_int off * mu =
      (word_of_int ((ca * bit_sign x + cb * bit_sign y + off) * ?m + ?e) :: 'w word)"
    unfolding pa pb by (simp add: unit(1) algebra_simps)
  also have "\<dots> = word_of_int (gate_sum ca cb off x y * ?m + ?e)"
    unfolding gate_sum_def by (rule centre_word [OF unit(3)])
  finally show thesis using noise that by blast
qed

lemma linear_gate_correct:
  fixes mu :: "'w::len word"
  assumes level: "level_ok mu B M" and contract: "homgate_contract n key mu Bo M homgate"
    and constants: "gate_constants_ok ca cb off f"
    and a: "encodes n key mu B x a" and b: "encodes n key mu B y b"
  shows "encodes n key mu Bo (f x y) (homgate ca cb (word_of_int off * mu) a b)"
proof -
  let ?m = "2 ^ (LENGTH('w) - 3) :: int" and ?c = "gate_sum ca cb off x y"
  note unit = level_unit [OF level]
  have m: "2 * B + M \<le> ?m" by (rule unit(4))
  let ?v = "word_of_int ca * lwe_phase n key a + word_of_int cb * lwe_phase n key b + word_of_int off * mu"
  obtain e where e: "\<bar>e\<bar> \<le> (\<bar>ca\<bar> + \<bar>cb\<bar>) * B" and v: "?v = word_of_int (?c * ?m + e)"
    using combination_value [OF level] a b unfolding encodes_def by metis
  obtain k where k: "0 < k" "\<bar>ca\<bar> + \<bar>cb\<bar> \<le> 2 * k"
    and c: "if f x y then k \<le> ?c \<and> ?c \<le> 4 - k else - (4 - k) \<le> ?c \<and> ?c \<le> - k"
    using constants unfolding gate_constants_ok_def by (metis insertCI)
  have noise: "\<bar>e\<bar> \<le> 2 * k * B"
    using e k(2) unit(5) by (meson mult_right_mono order_trans)
  have kM: "M \<le> k * ?m - 2 * k * B"
  proof -
    have "1 * M \<le> k * (?m - 2 * B)"
      using m k(1) unit(6) by (intro mult_mono) auto
    then show ?thesis by (simp add: algebra_simps)
  qed
  have up: "(4 - k) * ?m = 4 * ?m - k * ?m" and down: "- (4 - k) * ?m = k * ?m - 4 * ?m"
    and neg: "- k * ?m = - (k * ?m)"
    by (simp_all add: algebra_simps)
  have lens: "length a = Suc n" "length b = Suc n"
    using a b by (auto simp: encodes_def)
  note result = contract [unfolded homgate_contract_def, rule_format, OF lens, unfolded Let_def]
  show ?thesis
  proof (cases "f x y")
    case True
    then have "k * ?m \<le> ?c * ?m" and "?c * ?m \<le> (4 - k) * ?m"
      using c by (simp_all add: mult_right_mono)
    then have "M \<le> ?c * ?m + e" and "?c * ?m + e < 4 * ?m"
      using noise kM unit(6) up by linarith+
    then have "M \<le> sint ?v"
      unfolding v using unit(2,6) by (subst sint_of_int_small) auto
    then show ?thesis using result [THEN conjunct1] True by simp
  next
    case False
    then have "- (4 - k) * ?m \<le> ?c * ?m" and "?c * ?m \<le> - k * ?m"
      using c by (simp_all only: if_False mult_right_mono zero_le_power zero_le_numeral)
    then have "?c * ?m + e \<le> - M" and "- (4 * ?m) \<le> ?c * ?m + e"
      using noise kM unit(6) down neg by linarith+
    then have "sint ?v \<le> - M"
      unfolding v using unit(2,6) by (subst sint_of_int_small) auto
    then show ?thesis using result [THEN conjunct2] False by simp
  qed
qed

section \<open>Linear operations on samples\<close>

text \<open>Word-wise sum and negation of samples act on the phase in the same way.\<close>

definition tlwe_add :: "'w::len tlwe \<Rightarrow> 'w tlwe \<Rightarrow> 'w tlwe" where
  "tlwe_add a b = map2 (+) a b"

definition tlwe_neg :: "'w::len tlwe \<Rightarrow> 'w tlwe" where
  "tlwe_neg a = map uminus a"

lemma length_tlwe_add [simp]: "length (tlwe_add a b) = min (length a) (length b)"
  by (simp add: tlwe_add_def)

lemma length_tlwe_neg [simp]: "length (tlwe_neg a) = length a"
  by (simp add: tlwe_neg_def)

lemma lwe_phase_add:
  assumes "length a = Suc n" and "length b = Suc n"
  shows "lwe_phase n key (tlwe_add a b) = lwe_phase n key a + lwe_phase n key b"
  using assms by (simp add: lwe_phase_def tlwe_add_def distrib_right sum.distrib)

lemma lwe_phase_neg:
  assumes "length a = Suc n"
  shows "lwe_phase n key (tlwe_neg a) = - lwe_phase n key a"
  using assms by (simp add: lwe_phase_def tlwe_neg_def sum_negf)

lemma lwe_phase_body:
  assumes "length a = Suc n"
  shows "lwe_phase n key (a[n := a ! n + d]) = lwe_phase n key a + d"
  using assms by (simp add: lwe_phase_def)

lemma carries_neg:
  assumes "carries mu B b p" and "B < 2 ^ (LENGTH('w) - 1)"
  shows "carries mu B (\<not> b) (- p :: 'w::len word)"
proof -
  from assms(1) obtain e where "\<bar>e\<bar> \<le> B" and "p = (if b then mu else - mu) + word_of_int e"
    by (rule carriesE)
  then show ?thesis
    using assms(2) by (intro carriesI [where e = "- e"]) auto
qed

lemma encodes_neg:
  assumes "encodes n key mu B b c" and "B < 2 ^ (LENGTH('w) - 1)"
  shows "encodes n key mu B (\<not> b) (tlwe_neg c :: 'w::len tlwe)"
  using assms carries_neg by (auto simp: encodes_def lwe_phase_neg)

text \<open>A sum of two bits of which at most one is set, moved up by \<open>\<mu>\<close>, carries their disjunction.\<close>

lemma carries_disjoint_sum:
  fixes mu :: "'w::len word"
  assumes "carries mu B x p" and "carries mu B y q" and "\<not> (x \<and> y)"
    and "2 * B < 2 ^ (LENGTH('w) - 1)"
  shows "carries mu (2 * B) (x \<or> y) (p + q + mu)"
proof -
  from assms(1) obtain e where e: "\<bar>e\<bar> \<le> B" "p = (if x then mu else - mu) + word_of_int e"
    by (rule carriesE)
  from assms(2) obtain d where d: "\<bar>d\<bar> \<le> B" "q = (if y then mu else - mu) + word_of_int d"
    by (rule carriesE)
  show ?thesis
  proof (rule carriesI)
    show "p + q + mu = (if x \<or> y then mu else - mu) + word_of_int (e + d)"
      using assms(3) by (auto simp: e(2) d(2))
    show "\<bar>e + d\<bar> \<le> 2 * B" using e(1) d(1) by linarith
  qed (rule assms(4))
qed

section \<open>A concrete gate evaluator\<close>

text \<open>
  Samples without a mask (dimension 0) with an exact sign function satisfy the
  contract: the instance used by the witnesses.
\<close>

definition sign_gate :: "'w::len word \<Rightarrow> int \<Rightarrow> int \<Rightarrow> 'w word \<Rightarrow> 'w tlwe \<Rightarrow> 'w tlwe \<Rightarrow> 'w tlwe" where
  "sign_gate mu ca cb off a b =
     (let v = word_of_int ca * a ! 0 + word_of_int cb * b ! 0 + off
      in if 0 < sint v then [mu] else [- mu])"

lemma sign_gate_contract: "homgate_contract 0 [] mu 0 1 (sign_gate mu)"
  by (auto simp: homgate_contract_def sign_gate_def encodes_def carries_def lwe_phase_def Let_def)

lemma level_ok_32: "level_ok (2 ^ 29 :: 32 word) 0 1"
  by (simp add: level_ok_def)

end
