(* ===== verification/Xcl2.thy ===== *)
theory Xcl2
  imports Tangor_Prelude Complex_Main
begin

text \<open>
  The OpenCL helper that the FPGA back end is built with
  (src/thirdparties/xcl2/xcl2.cpp and xcl2.hpp): finding the devices of a vendor, reading the
  bitstream, and the small utilities beside them. Every exit(EXIT_FAILURE) and
  every access outside an array is an error value; the answers of OpenCL, the
  environment and the files are arguments.
\<close>

section \<open>Platforms and devices\<close>

datatype xcl_error = OclError | NoPlatform | InvalidBdf | NoBinary | SizesOutOfRange | BadAlloc

text \<open>
  The macro OCL_CHECK: an OpenCL call whose status is not CL_SUCCESS (None) is reported and ends the
  program.
\<close>

definition ocl_check :: "'a option \<Rightarrow> xcl_error + 'a" where
  "ocl_check call = (case call of None \<Rightarrow> Inl OclError | Some v \<Rightarrow> Inr v)"

text \<open>The answers of a platform.\<close>

record 'd xcl_platform =
  pl_name :: "string option"
  pl_devices :: "'d list option"

fun find_platform :: "string \<Rightarrow> 'd xcl_platform list \<Rightarrow> xcl_error + 'd xcl_platform option" where
  "find_platform vendor [] = Inr None"
| "find_platform vendor (p # ps) = rbind (ocl_check (pl_name p)) (\<lambda>name.
     if name = vendor then Inr (Some p) else find_platform vendor ps)"

definition get_devices :: "'d xcl_platform list option \<Rightarrow> string \<Rightarrow> xcl_error + 'd list" where
  "get_devices platforms vendor = 
     rbind (ocl_check platforms) (\<lambda>ps.
     rbind (find_platform vendor ps) (\<lambda>r. case r of
       None \<Rightarrow> Inl NoPlatform
     | Some p \<Rightarrow> ocl_check (pl_devices p)))"

definition get_xil_devices :: "'d xcl_platform list option \<Rightarrow> xcl_error + 'd list" where
  "get_xil_devices platforms = get_devices platforms ''Xilinx''"

fun find_device_bdf :: "('d \<Rightarrow> string option) \<Rightarrow> 'd list \<Rightarrow> string \<Rightarrow> xcl_error + 'd" where
  "find_device_bdf query [] bdf = Inl InvalidBdf"
| "find_device_bdf query (d # ds) bdf = rbind (ocl_check (query d)) (\<lambda>device_bdf.
     if bdf = device_bdf then Inr d else find_device_bdf query ds bdf)"

section \<open>Files and environment\<close>

definition read_binary_file :: "(string \<rightharpoonup> 'b list) \<Rightarrow> string \<Rightarrow> xcl_error + 'b list" where
  "read_binary_file files name = (case files name of None \<Rightarrow> Inl NoBinary | Some bytes \<Rightarrow> Inr bytes)"

definition is_emulation :: "(string \<rightharpoonup> string) \<Rightarrow> bool" where
  "is_emulation e \<longleftrightarrow> e ''XCL_EMULATION_MODE'' \<noteq> None"

definition is_hw_emulation :: "(string \<rightharpoonup> string) \<Rightarrow> bool" where
  "is_hw_emulation e \<longleftrightarrow> e ''XCL_EMULATION_MODE'' = Some ''hw_emu''"

text \<open>strstr finds the needle at some position.\<close>

fun strstr :: "string \<Rightarrow> string \<Rightarrow> bool" where
  "strstr [] needle = (needle = [])"
| "strstr (c # cs) needle = (take (length needle) (c # cs) = needle \<or> strstr cs needle)"

definition is_xpr_device :: "string \<Rightarrow> bool" where
  "is_xpr_device device_name = strstr device_name ''xpr''"

section \<open>Page-aligned memory\<close>

text \<open>
  The allocator aligned_allocator<T>. The heap maps the start of a block to its size;
  posix_memalign is a parameter that chooses the start of a new block, or fails. The
  argument \<open>size_of_T\<close> is sizeof(T); the product with the number of elements is computed in
  std::size_t.
\<close>

type_synonym size_t = "64 word"
type_synonym heap_blocks = "size_t \<rightharpoonup> size_t"

definition allocate ::
  "(heap_blocks \<Rightarrow> size_t \<Rightarrow> size_t \<Rightarrow> size_t option) \<Rightarrow> size_t \<Rightarrow> size_t \<Rightarrow> heap_blocks \<Rightarrow>
   xcl_error + size_t \<times> heap_blocks" where
  "allocate posix_memalign size_of_T num h =
     (case posix_memalign h 4096 (num * size_of_T) of
        None \<Rightarrow> Inl BadAlloc
      | Some ptr \<Rightarrow> Inr (ptr, h(ptr \<mapsto> num * size_of_T)))"

definition deallocate :: "size_t \<Rightarrow> heap_blocks \<Rightarrow> heap_blocks" where
  "deallocate p h = h(p := None)"

text \<open>What POSIX promises: a multiple of the alignment, and a block that overlaps no other.\<close>

definition memalign_ok :: "(heap_blocks \<Rightarrow> size_t \<Rightarrow> size_t \<Rightarrow> size_t option) \<Rightarrow> bool" where
  "memalign_ok posix_memalign \<longleftrightarrow>
     (\<forall>h alignment n p. posix_memalign h alignment n = Some p \<longrightarrow>
        unat alignment dvd unat p \<and> unat p + unat n \<le> 2 ^ 64 \<and> h p = None \<and>
        (\<forall>q m. h q = Some m \<longrightarrow> unat p + unat n \<le> unat q \<or> unat q + unat m \<le> unat p))"

section \<open>Extension functions\<close>

text \<open>
  The tables Stream, P2P and Ext: init asks the platform for the address of each function by name.
\<close>

record 'f stream_table =
  createStream :: 'f
  releaseStream :: 'f
  readStream :: 'f
  writeStream :: 'f
  pollStreams :: 'f

record 'f p2p_table =
  getMemObjectFd :: 'f
  getMemObjectFromFd :: 'f

record 'f ext_table =
  getComputeUnitInfo :: 'f

definition stream_init :: "(string \<Rightarrow> 'f) \<Rightarrow> 'f stream_table" where
  "stream_init address =
     \<lparr>createStream = address ''clCreateStream'', releaseStream = address ''clReleaseStream'',
      readStream = address ''clReadStream'', writeStream = address ''clWriteStream'',
      pollStreams = address ''clPollStreams''\<rparr>"

definition p2p_init :: "(string \<Rightarrow> 'f) \<Rightarrow> 'f p2p_table" where
  "p2p_init address =
     \<lparr>getMemObjectFd = address ''xclGetMemObjectFd'',
      getMemObjectFromFd = address ''xclGetMemObjectFromFd''\<rparr>"

definition ext_init :: "(string \<Rightarrow> 'f) \<Rightarrow> 'f ext_table" where
  "ext_init address = \<lparr>getComputeUnitInfo = address ''xclGetComputeUnitInfo''\<rparr>"

section \<open>Sizes for the reader\<close>

text \<open>
  round_off and convert_size compute with doubles. Below 2 ^ 40 bytes the sum, the product by 100 and the
  addition of one half are exact there, being multiples of 1 / 2048 below 2 ^ 17; the last quotient by 100 is
  rounded, but its two printed decimals are those of the exact one. So rationals model them. The
  conversion to int truncates towards zero; it is in range for these values.
\<close>

definition round_off :: "rat \<Rightarrow> rat" where
  "round_off n =
     (let d = n * 100; i = if 0 \<le> d + 1 / 2 then \<lfloor>d + 1 / 2\<rfloor> else \<lceil>d + 1 / 2\<rceil>
      in of_int i / 100)"

definition SIZES :: "string list" where
  "SIZES = [''B'', ''KB'', ''MB'', ''GB'']"

text \<open>The loop of convert_size, on size, rem and div.\<close>

function convert_loop :: "nat \<Rightarrow> nat \<Rightarrow> nat \<Rightarrow> nat \<times> nat \<times> nat" where
  "convert_loop sz rm dv =
     (if 1024 \<le> sz \<and> dv < length SIZES then convert_loop (sz div 1024) (sz mod 1024) (Suc dv) else (sz, rm, dv))"
  by pat_completeness auto
termination by (relation "measure (\<lambda>(sz, rm, dv). sz)") auto

declare convert_loop.simps [simp del]

fun show_nat :: "nat \<Rightarrow> string" where
  "show_nat n = (if n < 10 then [''0123456789'' ! n] else show_nat (n div 10) @ [''0123456789'' ! (n mod 10)])"

declare show_nat.simps [simp del]

text \<open>std::fixed with precision 2, for values with two decimals.\<close>

definition show_fixed2 :: "rat \<Rightarrow> string" where
  "show_fixed2 v =
     (let h = nat \<lfloor>v * 100\<rfloor>
      in show_nat (h div 100) @ ''.'' @ [''0123456789'' ! (h div 10 mod 10), ''0123456789'' ! (h mod 10)])"

definition convert_size :: "nat \<Rightarrow> xcl_error + string" where
  "convert_size sz =
     (let (s, rm, dv) = convert_loop sz 0 0;
          size_val = round_off (of_nat s + of_nat rm / 1024)
      in if dv < length SIZES then Inr (show_fixed2 size_val @ '' '' @ SIZES ! dv) else Inl SizesOutOfRange)"

section \<open>Properties\<close>

text \<open>The platform that is found is the first of that name, and all earlier ones have answered with another.\<close>

lemma find_platform_first:
  "find_platform vendor ps = Inr (Some p) \<Longrightarrow>
   \<exists>i < length ps. ps ! i = p \<and> pl_name p = Some vendor \<and> (\<forall>j < i. pl_name (ps ! j) \<noteq> Some vendor)"
proof (induction vendor ps rule: find_platform.induct)
  case (2 vendor q ps)
  then obtain name where q: "pl_name q = Some name" by (auto simp: ocl_check_def split: option.split_asm)
  show ?case
  proof (cases "name = vendor")
    case True
    then show ?thesis using 2 q by (intro exI [of _ 0]) (simp add: ocl_check_def)
  next
    case False
    with 2 q obtain i where "i < length ps" "ps ! i = p" "pl_name p = Some vendor"
      "\<forall>j < i. pl_name (ps ! j) \<noteq> Some vendor" by (auto simp: ocl_check_def)
    then show ?thesis
      using q False by (intro exI [of _ "Suc i"]) (auto simp: nth_Cons split: nat.split)
  qed
qed simp

lemma get_devices_first:
  assumes "get_devices platforms vendor = Inr ds"
  shows "\<exists>ps i. platforms = Some ps \<and> i < length ps \<and> pl_name (ps ! i) = Some vendor \<and>
    pl_devices (ps ! i) = Some ds \<and> (\<forall>j < i. pl_name (ps ! j) \<noteq> Some vendor)"
proof -
  from assms obtain ps p where "platforms = Some ps" "find_platform vendor ps = Inr (Some p)" "pl_devices p = Some ds"
    by (auto simp: get_devices_def ocl_check_def rbind_def split: option.split_asm sum.split_asm)
  with find_platform_first [of vendor ps p] show ?thesis by auto
qed

text \<open>The loop keeps the last remainder only, and stops after at most four divisions.\<close>

lemma convert_loop_steps:
  "convert_loop sz 0 0 =
     (if sz < 2 ^ 10 then (sz, 0, 0) else if sz < 2 ^ 20 then (sz div 2 ^ 10, sz mod 1024, 1)
      else if sz < 2 ^ 30 then (sz div 2 ^ 20, sz div 2 ^ 10 mod 1024, 2)
      else if sz < 2 ^ 40 then (sz div 2 ^ 30, sz div 2 ^ 20 mod 1024, 3)
      else (sz div 2 ^ 40, sz div 2 ^ 30 mod 1024, 4))"
proof -
  have d: "sz div 1024 div 1024 = sz div 2 ^ 20" "sz div 2 ^ 20 div 1024 = sz div 2 ^ 30"
    "sz div 2 ^ 30 div 1024 = sz div 2 ^ 40" by (simp_all add: div_mult2_eq [symmetric])
  have c: "1024 \<le> sz div 1024 \<longleftrightarrow> \<not> sz < 2 ^ 20" "1024 \<le> sz div 2 ^ 20 \<longleftrightarrow> \<not> sz < 2 ^ 30"
    "1024 \<le> sz div 2 ^ 30 \<longleftrightarrow> \<not> sz < 2 ^ 40" by (simp_all add: less_eq_div_iff_mult_less_eq not_less)
  note step = convert_loop.simps
  show ?thesis
    apply (subst step, subst step, subst step, subst step, subst step)
    apply (simp only: d c)
    by (auto simp: SIZES_def)
qed

lemma round_off_close: "0 \<le> n \<Longrightarrow> \<bar>round_off n - n\<bar> \<le> 1 / 200"
proof -
  assume "0 \<le> n"
  moreover have "of_int \<lfloor>n * 100 + 1 / 2\<rfloor> \<le> n * 100 + 1 / 2" "n * 100 + 1 / 2 < of_int \<lfloor>n * 100 + 1 / 2\<rfloor> + 1"
    by linarith+
  moreover have "round_off n = of_int \<lfloor>n * 100 + 1 / 2\<rfloor> / 100"
    using \<open>0 \<le> n\<close> by (simp add: round_off_def)
  ultimately show "\<bar>round_off n - n\<bar> \<le> 1 / 200" by linarith
qed

text \<open>Dropping the lower digits moves the value by less than one part in 1024.\<close>

lemma truncated_close:
  assumes "0 < (k :: nat)"
  shows "\<bar>(of_nat (sz div (k * 1024)) + of_nat (sz div k mod 1024) / 1024 :: rat) - of_nat sz / of_nat (k * 1024)\<bar> \<le> 1 / 1024"
proof -
  have "sz = (sz div (k * 1024) * 1024 + sz div k mod 1024) * k + sz mod k"
    by (metis div_mult2_eq div_mult_mod_eq mult.commute)
  then have "(of_nat sz :: rat) =
      (of_nat (sz div (k * 1024)) * 1024 + of_nat (sz div k mod 1024)) * of_nat k + of_nat (sz mod k)"
    by (metis of_nat_add of_nat_mult of_nat_numeral)
  moreover have "(of_nat (sz mod k) :: rat) \<le> of_nat k" "0 < (of_nat k :: rat)"
    using assms by (simp_all add: less_imp_le)
  ultimately show ?thesis by (simp add: abs_le_iff field_simps)
qed

text \<open>The size printer is right below one tebibyte: it prints a value with two decimals, in the largest unit in
  which the value is at least 1 (or in bytes), within half a hundredth and one part in 1024 of the exact quotient. From 2 ^ 40 bytes on the loop
  divides once more than there are units, and the unit is read outside its array.\<close>

lemma convert_size_bounds:
  "if sz < 2 ^ 40
   then \<exists>d < 4. \<exists>v. convert_size sz = Inr (show_fixed2 v @ '' '' @ SIZES ! d) \<and>
          sz < 1024 * 1024 ^ d \<and> (d = 0 \<or> 1024 ^ d \<le> sz) \<and>
          \<bar>v - of_nat sz / 1024 ^ d\<bar> \<le> 1 / 200 + 1 / 1024
   else convert_size sz = Inl SizesOutOfRange"
proof -
  have close: "\<bar>round_off (of_nat (sz div (k * 1024)) + of_nat (sz div k mod 1024) / 1024) - of_nat sz / of_nat (k * 1024)\<bar>
      \<le> 1 / 200 + 1 / 1024" if "0 < k" for k :: nat
    using round_off_close [of "of_nat (sz div (k * 1024)) + of_nat (sz div k mod 1024) / 1024"]
      truncated_close [OF that, of sz] by linarith
  have len: "length SIZES = 4" by (simp add: SIZES_def)
  have prints: ?thesis
    if "sz < 2 ^ 40" "d < 4" "convert_size sz = Inr (show_fixed2 v @ '' '' @ SIZES ! d)"
      "sz < 1024 * 1024 ^ d" "d = 0 \<or> 1024 ^ d \<le> sz" "\<bar>v - of_nat sz / 1024 ^ d\<bar> \<le> 1 / 200 + 1 / 1024" for d v
    using that by auto
  let ?v = "\<lambda>k. round_off (of_nat (sz div (k * 1024)) + of_nat (sz div k mod 1024) / 1024)"
  consider "sz < 2 ^ 10" | "2 ^ 10 \<le> sz" "sz < 2 ^ 20" | "2 ^ 20 \<le> sz" "sz < 2 ^ 30"
    | "2 ^ 30 \<le> sz" "sz < 2 ^ 40" | "2 ^ 40 \<le> sz" by linarith
  then show ?thesis
  proof cases
    case 1
    then show ?thesis
      using round_off_close [of "of_nat sz"]
      by (intro prints [of 0 "round_off (of_nat sz)"]) (simp_all add: convert_size_def convert_loop_steps len)
  next
    case 2
    then show ?thesis
      using close [of 1] by (intro prints [of 1 "?v 1"]) (simp_all add: convert_size_def convert_loop_steps len)
  next
    case 3
    then show ?thesis
      using close [of "2 ^ 10"]
      by (intro prints [of 2 "?v (2 ^ 10)"]) (simp_all add: convert_size_def convert_loop_steps len)
  next
    case 4
    then show ?thesis
      using close [of "2 ^ 20"]
      by (intro prints [of 3 "?v (2 ^ 20)"]) (simp_all add: convert_size_def convert_loop_steps len)
  qed (simp add: convert_size_def convert_loop_steps len)
qed

text \<open>An allocated block starts on a page boundary, overlaps no other block, and freeing it gives
  the heap back. It has room for all elements exactly when their total size is below 2 ^ 64; beyond
  that the product wraps around, and the allocator hands out a block that is too small instead of
  throwing.\<close>

lemma allocate_room:
  assumes "memalign_ok posix_memalign" and "allocate posix_memalign size_of_T num h = Inr (p, h')"
    and "size_of_T \<noteq> 0"
  shows "4096 dvd unat p \<and> deallocate p h' = h \<and>
    (\<forall>q m. h q = Some m \<longrightarrow> unat p + unat (num * size_of_T) \<le> unat q \<or> unat q + unat m \<le> unat p) \<and>
    (\<exists>n. h' p = Some n \<and>
       ((\<forall>i < unat num. i * unat size_of_T + unat size_of_T \<le> unat n) \<longleftrightarrow>
        unat num * unat size_of_T < 2 ^ 64))"
proof -
  from assms(2) have new: "posix_memalign h 4096 (num * size_of_T) = Some p"
    and h': "h' = h(p \<mapsto> num * size_of_T)"
    by (auto simp: allocate_def split: option.splits)
  have promise: "unat (4096 :: size_t) dvd unat p" "h p = None"
    "\<forall>q m. h q = Some m \<longrightarrow> unat p + unat (num * size_of_T) \<le> unat q \<or> unat q + unat m \<le> unat p"
    using assms(1) new unfolding memalign_ok_def by blast+
  have size_of: "unat (num * size_of_T) = unat num * unat size_of_T mod 2 ^ 64"
    by (simp add: unat_word_ariths)
  have "(\<forall>i < unat num. i * unat size_of_T + unat size_of_T \<le> unat (num * size_of_T)) \<longleftrightarrow>
      unat num * unat size_of_T < 2 ^ 64"
  proof
    assume room: "\<forall>i < unat num. i * unat size_of_T + unat size_of_T \<le> unat (num * size_of_T)"
    show "unat num * unat size_of_T < 2 ^ 64"
    proof (cases "unat num")
      case (Suc i)
      with room have "unat num * unat size_of_T \<le> unat (num * size_of_T)" by (simp add: add.commute)
      moreover have "unat (num * size_of_T) < 2 ^ LENGTH(64)" by (rule unsigned_less)
      ultimately show ?thesis by simp
    qed simp
  next
    assume small: "unat num * unat size_of_T < 2 ^ 64"
    show "\<forall>i < unat num. i * unat size_of_T + unat size_of_T \<le> unat (num * size_of_T)"
    proof (intro allI impI)
      fix i
      assume "i < unat num"
      then have "Suc i * unat size_of_T \<le> unat num * unat size_of_T" by (intro mult_le_mono1) simp
      then show "i * unat size_of_T + unat size_of_T \<le> unat (num * size_of_T)"
        using small size_of by simp
    qed
  qed
  with promise show ?thesis by (auto simp: h' deallocate_def)
qed

text \<open>2 ^ 61 elements of eight bytes fit into a block of no bytes.\<close>

definition sample_memalign :: "heap_blocks \<Rightarrow> size_t \<Rightarrow> size_t \<Rightarrow> size_t option" where
  "sample_memalign h alignment n = (if h = Map.empty \<and> alignment = 4096 \<and> n = 0 then Some 4096 else None)"

lemma allocate_room_witness:
  "\<exists>p h'. allocate sample_memalign 8 (2 ^ 61) Map.empty = Inr (p, h') \<and>
     \<not> (\<forall>i < (2 :: nat) ^ 61. i * 8 + 8 \<le> unat (the (h' p)))"
proof -
  have ok: "memalign_ok sample_memalign"
    by (auto simp: memalign_ok_def sample_memalign_def split: if_splits)
  have wrap: "(18446744073709551616 :: size_t) = 0"
    by (subst unat_eq_zero [symmetric]) simp
  have alloc: "allocate sample_memalign 8 (2 ^ 61) Map.empty = Inr (4096, Map.empty(4096 \<mapsto> 0))"
    by (simp add: allocate_def sample_memalign_def wrap)
  show ?thesis
  proof (intro exI conjI, rule alloc)
    show "\<not> (\<forall>i < (2 :: nat) ^ 61. i * 8 + 8 \<le> unat (the ((Map.empty(4096 \<mapsto> (0 :: size_t))) (4096 :: size_t))))"
      using allocate_room [OF ok alloc] by simp
  qed
qed

end
