(* ===== verification/Hoge_Wrapper.thy ===== *)
theory Hoge_Wrapper
  imports Torus_Gates Xcl2
begin

text \<open>
  The FPGA back end (src/include/hogewrapper.hpp and src/src/hogewrapper.cpp):
  the choice of a device, the layout of the evaluation key in the memory banks
  of the FPGA, the arguments of the kernel, and the wrappers that run one gate
  or one multiplexer. The OpenCL runtime and the bitstream are parameters: the
  status of every checked call and the function the kernel computes. Shown
  here: the key layout is a bijection, banks and kernel arguments do not
  overlap, the multiplexer is correct, and the negated multiplexer is not.
\<close>

section \<open>Errors and word buffers\<close>

text \<open>
  What can go wrong in a codelet: an access beyond the end of a buffer, a call
  with the wrong number of buffers, a failed OpenCL call (OCL_CHECK exits), a
  codelet scheduled where it has no implementation.
\<close>

datatype codelet_error = BufferOverrun | WrongBufferCount | OclExit | NoImplementation | NullArgument

text \<open>The loops \<open>for (i = 0; i <= n; i++) dst[i] = src[i]\<close>.\<close>

definition copy_words :: "nat \<Rightarrow> 'a list \<Rightarrow> 'a list \<Rightarrow> codelet_error + 'a list" where
  "copy_words n src dst =
     (if length src < Suc n \<or> length dst < Suc n then Inl BufferOverrun
      else Inr (take (Suc n) src @ drop (Suc n) dst))"

lemma copy_words_same [simp]:
  "length src = Suc n \<Longrightarrow> length dst = Suc n \<Longrightarrow> copy_words n src dst = Inr src"
  by (simp add: copy_words_def)

section \<open>Device constants\<close>

definition buswidthlb :: nat where "buswidthlb = 9"
definition buswords :: nat where "buswords = 2 ^ (buswidthlb - 6)"
definition iksknumbus :: nat where "iksknumbus = 10"
definition totaliksknumbus :: nat where "totaliksknumbus = 40"
definition bknumbus :: nat where "bknumbus = 8"
definition cyclebit :: nat where "cyclebit = 5"
definition numcycle :: nat where "numcycle = 2 ^ cyclebit"

text \<open>\<open>digits\<close> is the number of bits of a level-0 torus element.\<close>

definition wordsinbus :: "nat \<Rightarrow> nat" where
  "wordsinbus digits = 2 ^ buswidthlb div digits"

lemmas bus_defs = buswidthlb_def buswords_def iksknumbus_def totaliksknumbus_def bknumbus_def
  cyclebit_def numcycle_def

section \<open>Device initialisation\<close>

text \<open>PC_NAME and the table pc; \<open>topo\<close> is the macro XCL_MEM_TOPOLOGY.\<close>

definition PC_NAME :: "uint \<Rightarrow> nat \<Rightarrow> uint" where
  "PC_NAME topo n = or (word_of_nat n) topo"

definition pc :: "uint \<Rightarrow> uint list" where
  "pc topo = map (PC_NAME topo) [0..<32]"

text \<open>The source index of one word of the aligned key-switching and bootstrapping keys.\<close>

definition iksk_index :: "nat \<Rightarrow> nat \<Rightarrow> nat \<Rightarrow> nat \<Rightarrow> nat" where
  "iksk_index digits n m l = n * iksknumbus * wordsinbus digits + m * wordsinbus digits + l"

definition ikskaligned ::
  "nat \<Rightarrow> (nat \<Rightarrow> nat \<Rightarrow> nat \<Rightarrow> nat \<Rightarrow> 'a) \<Rightarrow> nat \<Rightarrow> nat \<Rightarrow> nat \<Rightarrow> nat \<Rightarrow> nat \<Rightarrow> nat \<Rightarrow> 'a" where
  "ikskaligned digits iksk m i j k n l = iksk i j k (iksk_index digits n m l)"

definition bkntt_slot :: "nat \<Rightarrow> nat \<Rightarrow> nat" where
  "bkntt_slot k bus = k * bknumbus div 2 + bus"

definition bkntt_index :: "nat \<Rightarrow> nat \<Rightarrow> nat \<Rightarrow> nat" where
  "bkntt_index cycle bus word = cycle * bknumbus div 2 * buswords + bus * buswords + word"

text \<open>The aligned array at its first index \<open>s\<close>, which the loops reach as bkntt_slot k bus.\<close>

definition bknttaligned ::
  "(nat \<Rightarrow> nat \<Rightarrow> nat \<Rightarrow> nat \<Rightarrow> 'a) \<Rightarrow> nat \<Rightarrow> nat \<Rightarrow> nat \<Rightarrow> nat \<Rightarrow> nat \<Rightarrow> 'a" where
  "bknttaligned bkntt s i l cycle word =
     bkntt i l (s div (bknumbus div 2)) (bkntt_index cycle (s mod (bknumbus div 2)) word)"

datatype hoge_buffer = ResBuf | InaBuf | InbBuf | IkskBuf nat | BknttBuf nat

definition buffer_flags :: "uint \<Rightarrow> (hoge_buffer \<times> uint) list" where
  "buffer_flags topo =
     [(ResBuf, PC_NAME topo 0), (InaBuf, PC_NAME topo 1), (InbBuf, PC_NAME topo 2)] @
     map (\<lambda>i. (IkskBuf i, pc topo ! (i + 3))) [0..<iksknumbus] @
     map (\<lambda>i. (BknttBuf i, pc topo ! (20 + i))) [0..<bknumbus]"

definition buffer_args :: "(nat \<times> hoge_buffer) list" where
  "buffer_args =
     [(3, ResBuf), (4, InaBuf), (5, InbBuf)] @
     map (\<lambda>i. (i + 6, IkskBuf i)) [0..<iksknumbus] @
     map (\<lambda>i. (i + 6 + iksknumbus, BknttBuf i)) [0..<bknumbus]"

text \<open>
  What the host offers: the OpenCL platforms and the files, and for a device the
  status of creating its context and its queue, of programming it with a
  bitstream, and of creating the kernel.
\<close>

type_synonym byte = "8 word"

record hoge_host =
  cl_platforms :: "nat xcl_platform list option"
  bin_files :: "string \<rightharpoonup> byte list"
  dev_context :: "nat \<Rightarrow> bool"
  dev_queue :: "nat \<Rightarrow> bool"
  dev_program :: "byte list \<Rightarrow> nat \<Rightarrow> bool"
  dev_kernel :: "nat \<Rightarrow> bool"

text \<open>The loop over the devices.\<close>

fun select_device :: "hoge_host \<Rightarrow> byte list \<Rightarrow> nat list \<Rightarrow> codelet_error + nat" where
  "select_device host bins [] = Inl OclExit"
| "select_device host bins (device # devices) =
     (if \<not> dev_context host device then Inl OclExit
      else if \<not> dev_queue host device then Inl OclExit
      else if \<not> dev_program host bins device then select_device host bins devices
      else if \<not> dev_kernel host device then Inl OclExit
      else Inr device)"

record hoge_setup =
  hs_device :: nat
  hs_flags :: "(hoge_buffer \<times> uint) list"
  hs_args :: "(nat \<times> hoge_buffer) list"
  hs_migrated :: "hoge_buffer list"

text \<open>\<open>setup_ok\<close>: every checked call after the choice of the device succeeds.\<close>

definition HOGEinit :: "uint \<Rightarrow> hoge_host \<Rightarrow> string \<Rightarrow> bool \<Rightarrow> codelet_error + hoge_setup" where
  "HOGEinit topo host binaryFile setup_ok =
     (case get_xil_devices (cl_platforms host) of
        Inl _ \<Rightarrow> Inl OclExit
      | Inr devices \<Rightarrow> (case read_binary_file (bin_files host) binaryFile of
          Inl _ \<Rightarrow> Inl OclExit
        | Inr bins \<Rightarrow>
            rbind (select_device host bins devices) (\<lambda>d.
            rbind (rguard setup_ok OclExit) (\<lambda>_.
            Inr \<lparr>hs_device = d, hs_flags = buffer_flags topo, hs_args = buffer_args,
                 hs_migrated = map IkskBuf [0..<iksknumbus] @ map BknttBuf [0..<bknumbus]\<rparr>))))"

section \<open>Running a gate\<close>

text \<open>The checked OpenCL calls of the wrappers.\<close>

datatype cl_op = SetArg nat uint16 | MigrateIn "hoge_buffer list" | EnqueueTask | MigrateOut "hoge_buffer list"

record 'a hoge_api =
  hg_n :: nat
  hg_mu :: "'a"
  hg_kernel :: "uint16 \<Rightarrow> uint16 \<Rightarrow> uint16 \<Rightarrow> 'a list \<Rightarrow> 'a list \<Rightarrow> 'a list"
  hg_status :: "cl_op \<Rightarrow> bool"

text \<open>Host buffers, their copies in device memory, and the kernel arguments 0 to 2.\<close>

record 'a hoge_state =
  buftlwea :: "'a list"
  buftlweb :: "'a list"
  bufres :: "'a list"
  dev_ina :: "'a list"
  dev_inb :: "'a list"
  dev_res :: "'a list"
  scalea :: uint16
  scaleb :: uint16
  offset :: uint16

definition set_arg :: "nat \<Rightarrow> uint16 \<Rightarrow> 'a hoge_state \<Rightarrow> 'a hoge_state" where
  "set_arg i v s =
     (if i = 0 then s\<lparr>scalea := v\<rparr> else if i = 1 then s\<lparr>scaleb := v\<rparr>
      else if i = 2 then s\<lparr>offset := v\<rparr> else s)"

definition cl_effect :: "'a hoge_api \<Rightarrow> cl_op \<Rightarrow> 'a hoge_state \<Rightarrow> 'a hoge_state" where
  "cl_effect api cl s = (case cl of
     SetArg i v \<Rightarrow> set_arg i v s
   | MigrateIn bs \<Rightarrow>
       s\<lparr>dev_ina := (if InaBuf \<in> set bs then buftlwea s else dev_ina s),
         dev_inb := (if InbBuf \<in> set bs then buftlweb s else dev_inb s)\<rparr>
   | EnqueueTask \<Rightarrow>
       s\<lparr>dev_res := hg_kernel api (scalea s) (scaleb s) (offset s) (dev_ina s) (dev_inb s)\<rparr>
   | MigrateOut bs \<Rightarrow> s\<lparr>bufres := (if ResBuf \<in> set bs then dev_res s else bufres s)\<rparr>)"

definition OCL_CHECK ::
  "'a hoge_api \<Rightarrow> cl_op \<Rightarrow> 'a hoge_state \<Rightarrow> codelet_error + 'a hoge_state" where
  "OCL_CHECK api cl s = (if hg_status api cl then Inr (cl_effect api cl s) else Inl OclExit)"

definition HOGEwrap ::
  "'w::len word hoge_api \<Rightarrow> uint16 \<Rightarrow> uint16 \<Rightarrow> uint16 \<Rightarrow> 'w::len tlwe list \<Rightarrow> 'w word hoge_state \<Rightarrow>
   codelet_error + ('w tlwe list \<times> 'w word hoge_state)" where
  "HOGEwrap api scaleaindex scalebindex offsetindex buffers s =
     (case buffers of [b0, b1, b2] \<Rightarrow>
        rbind (copy_words (hg_n api) b1 (buftlwea s)) (\<lambda>a.
        rbind (copy_words (hg_n api) b2 (buftlweb s)) (\<lambda>b.
        rbind (rfold (OCL_CHECK api)
          [SetArg 0 scaleaindex, SetArg 1 scalebindex, SetArg 2 offsetindex,
           MigrateIn [InaBuf, InbBuf], EnqueueTask, MigrateOut [ResBuf]]
          (s\<lparr>buftlwea := a, buftlweb := b\<rparr>)) (\<lambda>s1.
        rbind (copy_words (hg_n api) (bufres s1) b0) (\<lambda>r. Inr ([r, b1, b2], s1)))))
      | _ \<Rightarrow> Inl WrongBufferCount)"

text \<open>The loops that combine the first result, already in buffers[0], with the second.\<close>

definition combine_words ::
  "nat \<Rightarrow> bool \<Rightarrow> 'w::len tlwe \<Rightarrow> 'w tlwe \<Rightarrow> codelet_error + 'w tlwe" where
  "combine_words n negate b0 res =
     (if length b0 < Suc n \<or> length res < Suc n then Inl BufferOverrun
      else Inr (map (\<lambda>i. if negate then - (b0 ! i - res ! i) else b0 ! i + res ! i) [0..<Suc n]
                @ drop (Suc n) b0))"

definition HOGEMUXwrap ::
  "bool \<Rightarrow> 'w word hoge_api \<Rightarrow> 'w::len tlwe list \<Rightarrow> 'w word hoge_state \<Rightarrow>
   codelet_error + ('w tlwe list \<times> 'w word hoge_state)" where
  "HOGEMUXwrap negate api buffers s =
     (case buffers of [b0, b1, b2, b3] \<Rightarrow>
        rbind (copy_words (hg_n api) b1 (buftlwea s)) (\<lambda>a.
        rbind (copy_words (hg_n api) b2 (buftlweb s)) (\<lambda>b.
        rbind (rfold (OCL_CHECK api)
          [SetArg 0 0, SetArg 1 0, SetArg 2 2,
           MigrateIn [InaBuf, InbBuf], EnqueueTask, MigrateOut [ResBuf]]
          (s\<lparr>buftlwea := a, buftlweb := b\<rparr>)) (\<lambda>s1.
        rbind (copy_words (hg_n api) (bufres s1) b0) (\<lambda>r1.
        rbind (copy_words (hg_n api) b3 (buftlweb s1)) (\<lambda>c.
        rbind (rfold (OCL_CHECK api)
          [SetArg 0 2, MigrateIn [InbBuf], EnqueueTask, MigrateOut [ResBuf]]
          (s1\<lparr>buftlweb := c\<rparr>)) (\<lambda>s2.
        rbind (combine_words (hg_n api) negate r1 (bufres s2)) (\<lambda>r2.
        Inr ([r2[hg_n api := r2 ! hg_n api + (if negate then - hg_mu api else hg_mu api)],
              b1, b2, b3], s2))))))))
      | _ \<Rightarrow> Inl WrongBufferCount)"

text \<open>The template arguments of HOGEwrap, as HomGateWrap computes them.\<close>

definition scale_index :: "int \<Rightarrow> uint16" where
  "scale_index casign =
     (if casign < 0 then (if casign = - 2 then 3 else 2) else (if casign = 2 then 1 else 0))"

definition offset_index :: "'w::len word \<Rightarrow> 'w word \<Rightarrow> uint16" where
  "offset_index mu off =
     (if sint off < 0 then (if off = - 2 * mu then 3 else 2) else (if off = 2 * mu then 1 else 0))"

section \<open>Key layout\<close>

text \<open>Mixed-radix positions: the lower digit runs through its range for each upper digit.\<close>

lemma radix_unique:
  fixes a b :: nat
  assumes "a * r + x = b * r + y" and "x < r" and "y < r"
  shows "a = b \<and> x = y"
proof -
  have "(a * r + x) div r = a" and "(a * r + x) mod r = x"
    "(b * r + y) div r = b" "(b * r + y) mod r = y"
    using assms(2,3) by auto
  with assms(1) show ?thesis by metis
qed

lemma bij_betw_radix:
  "0 < r \<Longrightarrow> bij_betw (\<lambda>(a, x). a * r + x) ({..<n} \<times> {..<r}) {..<n * r :: nat}"
proof (rule bij_betw_byWitness [where f' = "\<lambda>z. (z div r, z mod r)"])
  assume r: "0 < r"
  show "\<forall>p \<in> {..<n} \<times> {..<r}. ((case p of (a, x) \<Rightarrow> a * r + x) div r, (case p of (a, x) \<Rightarrow> a * r + x) mod r) = p"
    by auto
  show "\<forall>z \<in> {..<n * r}. (case (z div r, z mod r) of (a, x) \<Rightarrow> a * r + x) = z"
    by auto
  show "(\<lambda>(a, x). a * r + x) ` ({..<n} \<times> {..<r}) \<subseteq> {..<n * r}"
  proof clarsimp
    fix a x
    assume "a < n" and "x < r"
    then have "a * r + x < a * r + r" and "Suc a * r \<le> n * r"
      by (simp, intro mult_le_mono) auto
    then show "a * r + x < n * r" by simp
  qed
  show "(\<lambda>z. (z div r, z mod r)) ` {..<n * r} \<subseteq> {..<n} \<times> {..<r}"
    using r by (auto simp: less_mult_imp_div_less)
qed

lemma bij_betw_radix3:
  assumes "0 < q" and "0 < r"
  shows "bij_betw (\<lambda>(a, b, x). a * q * r + b * r + x) ({..<n} \<times> {..<q} \<times> {..<r}) {..<n * q * r :: nat}"
proof -
  have "bij_betw (\<lambda>(a, b, x). (a * q + b, x)) ({..<n} \<times> {..<q} \<times> {..<r}) ({..<n * q} \<times> {..<r})"
  proof -
    have "bij_betw (map_prod (\<lambda>(a, b). a * q + b) id) (({..<n} \<times> {..<q}) \<times> {..<r}) ({..<n * q} \<times> {..<r})"
      using bij_betw_radix [OF assms(1)] by (intro bij_betw_map_prod) auto
    moreover have "bij_betw (\<lambda>(a, b, x). ((a, b), x)) ({..<n} \<times> {..<q} \<times> {..<r})
        (({..<n} \<times> {..<q}) \<times> {..<r})"
      by (rule bij_betw_byWitness [where f' = "\<lambda>((a, b), x). (a, b, x)"]) auto
    ultimately have "bij_betw (map_prod (\<lambda>(a, b). a * q + b) id \<circ> (\<lambda>(a, b, x). ((a, b), x)))
        ({..<n} \<times> {..<q} \<times> {..<r}) ({..<n * q} \<times> {..<r})"
      using bij_betw_trans by blast
    moreover have "map_prod (\<lambda>(a, b). a * q + b) id \<circ> (\<lambda>(a, b, x). ((a, b), x)) =
        (\<lambda>(a, b, x :: nat). (a * q + b, x))"
      by (auto simp: fun_eq_iff)
    ultimately show ?thesis by (simp only:)
  qed
  from bij_betw_trans [OF this bij_betw_radix [OF assms(2)]]
  have "bij_betw ((\<lambda>(a, x). a * r + x) \<circ> (\<lambda>(a, b, x). (a * q + b, x)))
      ({..<n} \<times> {..<q} \<times> {..<r}) {..<n * q * r}" .
  moreover have "(\<lambda>(a, x). a * r + x) \<circ> (\<lambda>(a, b, x). (a * q + b, x)) =
      (\<lambda>(a, b, x). a * q * r + b * r + x)"
    by (auto simp: fun_eq_iff add_mult_distrib)
  ultimately show ?thesis by (simp only:)
qed

lemma bknttaligned_slot:
  "bus < bknumbus div 2 \<Longrightarrow>
   bknttaligned bkntt (bkntt_slot k bus) i l cycle word = bkntt i l k (bkntt_index cycle bus word)"
  by (simp add: bknttaligned_def bkntt_slot_def bus_defs)

section \<open>Kernel runs\<close>

text \<open>The scale that an index of the kernel stands for.\<close>

definition hoge_scale :: "uint16 \<Rightarrow> int" where
  "hoge_scale i = (if i = 0 then 1 else if i = 1 then 2 else if i = 2 then - 1 else - 2)"

text \<open>The contract of the bitstream: it is a bootstrapped gate with the constants the indices name.\<close>

definition hoge_contract ::
  "nat \<Rightarrow> 'w::len word list \<Rightarrow> 'w word \<Rightarrow> int \<Rightarrow> int \<Rightarrow>
   (uint16 \<Rightarrow> uint16 \<Rightarrow> uint16 \<Rightarrow> 'w tlwe \<Rightarrow> 'w tlwe \<Rightarrow> 'w tlwe) \<Rightarrow> bool" where
  "hoge_contract n key mu B M kern \<longleftrightarrow>
     (\<exists>homgate. homgate_contract n key mu B M homgate \<and>
        (\<forall>sa sb so. kern sa sb so =
           homgate (hoge_scale sa) (hoge_scale sb) (word_of_int (hoge_scale so) * mu)))"

text \<open>Host buffers are TLWE arrays, and no OpenCL call fails.\<close>

definition hoge_ready :: "'w::len word hoge_api \<Rightarrow> 'w word hoge_state \<Rightarrow> bool" where
  "hoge_ready api s \<longleftrightarrow>
     (\<forall>cl. hg_status api cl) \<and> length (buftlwea s) = Suc (hg_n api) \<and>
     length (buftlweb s) = Suc (hg_n api)"

lemma hoge_gate_correct:
  assumes "level_ok mu B M" and "hoge_contract n key mu Bo M kern"
    and "gate_constants_ok (hoge_scale sa) (hoge_scale sb) (hoge_scale so) f"
    and "encodes n key mu B x a" and "encodes n key mu B y b"
  shows "encodes n key mu Bo (f x y) (kern sa sb so a b)"
  using assms linear_gate_correct unfolding hoge_contract_def by metis

lemma scale_index_inverse:
  "casign \<in> {1, 2, - 1, - 2} \<Longrightarrow> hoge_scale (scale_index casign) = casign"
  by (auto simp: hoge_scale_def scale_index_def)

lemma offset_index_inverse:
  assumes "level_ok (mu :: 'w::len word) B M" and "off \<in> {1, 2, - 1, - 2}"
  shows "hoge_scale (offset_index mu (word_of_int off * mu)) = off"
proof -
  let ?m = "2 ^ (LENGTH('w) - 3) :: int"
  note unit = level_unit [OF assms(1)]
  have sint: "sint (word_of_int (k * ?m) :: 'w word) = k * ?m" if "- 4 \<le> k" "k < 4" for k
  proof (rule sint_of_int_small)
    show "- (2 ^ (LENGTH('w) - 1)) \<le> k * ?m"
      using that mult_right_mono [of "- 4" k ?m] unfolding unit(2) by simp
    show "k * ?m < 2 ^ (LENGTH('w) - 1)"
      using that unfolding unit(2) by simp
  qed
  have word: "word_of_int k * mu = word_of_int (k * ?m)" for k
    unfolding unit(1) by simp
  have two: "2 * mu = word_of_int (2 * ?m)" and minus_two: "- 2 * mu = word_of_int (- 2 * ?m)"
    using word [of 2] word [of "- 2"] by simp_all
  have eq: "(word_of_int (k * ?m) :: 'w word) = word_of_int (l * ?m) \<longleftrightarrow> k = l"
    if "- 4 \<le> k" "k < 4" "- 4 \<le> l" "l < 4" for k l
    using sint [of k] sint [of l] that by (metis mult_cancel_right power_not_zero zero_neq_numeral)
  show ?thesis
    using assms(2) sint [of off] eq [of off 2] eq [of off "- 2"]
    unfolding offset_index_def two minus_two word
    by (auto simp: hoge_scale_def)
qed

lemma HOGEwrap_run:
  assumes "hoge_ready api s" and "length b0 = Suc (hg_n api)" and "length b1 = Suc (hg_n api)"
    and "length b2 = Suc (hg_n api)" and "length (hg_kernel api sa sb so b1 b2) = Suc (hg_n api)"
  shows "\<exists>s'. HOGEwrap api sa sb so [b0, b1, b2] s =
            Inr ([hg_kernel api sa sb so b1 b2, b1, b2], s') \<and> hoge_ready api s'"
  using assms
  by (auto simp: HOGEwrap_def hoge_ready_def OCL_CHECK_def cl_effect_def set_arg_def)

definition combined :: "nat \<Rightarrow> bool \<Rightarrow> 'w::len tlwe \<Rightarrow> 'w tlwe \<Rightarrow> 'w word \<Rightarrow> 'w tlwe" where
  "combined n negate a b mu =
     (let r = (if negate then tlwe_neg (tlwe_add a (tlwe_neg b)) else tlwe_add a b)
      in r[n := r ! n + (if negate then - mu else mu)])"

lemma combine_words_eq:
  assumes "length a = Suc n" and "length b = Suc n"
  shows "combine_words n negate a b =
    Inr (if negate then tlwe_neg (tlwe_add a (tlwe_neg b)) else tlwe_add a b)"
  using assms
  by (auto simp: combine_words_def tlwe_neg_def tlwe_add_def intro!: nth_equalityI simp del: upt_Suc)

lemma HOGEMUXwrap_run:
  assumes "hoge_ready api s" and "length b0 = Suc (hg_n api)" and "length b1 = Suc (hg_n api)"
    and "length b2 = Suc (hg_n api)" and "length b3 = Suc (hg_n api)"
    and "length (hg_kernel api 0 0 2 b1 b2) = Suc (hg_n api)"
    and "length (hg_kernel api 2 0 2 b1 b3) = Suc (hg_n api)"
  shows "\<exists>s'. HOGEMUXwrap negate api [b0, b1, b2, b3] s =
      Inr ([combined (hg_n api) negate (hg_kernel api 0 0 2 b1 b2) (hg_kernel api 2 0 2 b1 b3)
              (hg_mu api), b1, b2, b3], s') \<and> hoge_ready api s'"
  using assms
  by (auto simp: HOGEMUXwrap_def hoge_ready_def OCL_CHECK_def cl_effect_def set_arg_def
      combine_words_eq combined_def Let_def)

lemma gate_constants_and: "gate_constants_ok 1 1 (- 1) (\<and>)"
  and gate_constants_andny: "gate_constants_ok (- 1) 1 (- 1) (\<lambda>a b. \<not> a \<and> b)"
  unfolding gate_constants_ok_def gate_sum_def centre_def bit_sign_def
  by (intro exI [of _ 1]; simp)+

text \<open>The two kernel runs of a multiplexer.\<close>

lemma hoge_mux_parts:
  assumes "level_ok mu B M" and "hoge_contract n key mu Bo M kern"
    and "encodes n key mu B s b1" and "encodes n key mu B c1 b2" and "encodes n key mu B c0 b3"
  shows "encodes n key mu Bo (s \<and> c1) (kern 0 0 2 b1 b2)"
    and "encodes n key mu Bo (\<not> s \<and> c0) (kern 2 0 2 b1 b3)"
proof -
  have scales: "hoge_scale 0 = 1" "hoge_scale 2 = - 1"
    by (simp_all add: hoge_scale_def)
  show "encodes n key mu Bo (s \<and> c1) (kern 0 0 2 b1 b2)"
    using hoge_gate_correct [OF assms(1,2) _ assms(3,4), of 0 0 2 "(\<and>)"] gate_constants_and
    by (simp add: scales)
  show "encodes n key mu Bo (\<not> s \<and> c0) (kern 2 0 2 b1 b3)"
    using hoge_gate_correct [OF assms(1,2) _ assms(3,5), of 2 0 2 "\<lambda>a b. \<not> a \<and> b"]
      gate_constants_andny
    by (simp add: scales)
qed

lemma encodes_combined:
  assumes "encodes n key mu B x a" and "encodes n key mu B y (b :: 'w::len tlwe)" and "\<not> (x \<and> y)"
    and "2 * B < 2 ^ (LENGTH('w) - 1)"
  shows "encodes n key mu (2 * B) (x \<or> y) (combined n False a b mu)"
  using assms carries_disjoint_sum [OF _ _ assms(3,4)]
  by (auto simp: encodes_def combined_def Let_def lwe_phase_body lwe_phase_add)

lemma phase_combined_negate:
  assumes "length a = Suc n" and "length b = Suc n"
  shows "lwe_phase n key (combined n True a b mu) = lwe_phase n key b - lwe_phase n key a - mu"
  using assms lwe_phase_body [of "tlwe_neg (tlwe_add a (tlwe_neg b))" n key "- mu"]
  by (simp add: combined_def Let_def lwe_phase_add lwe_phase_neg)

lemma level_noise:
  assumes "level_ok (mu :: 'w::len word) B M"
  shows "2 * B < 2 ^ (LENGTH('w) - 1)" and "B < 2 ^ (LENGTH('w) - 1)"
  using level_unit [OF assms] by simp_all

section \<open>Properties\<close>

text \<open>The rearrangements of the two keys.\<close>

lemma iksk_index_bij:
  assumes "0 < digits" and "digits \<le> 512"
  shows "bij_betw (\<lambda>(n, m, l). iksk_index digits n m l)
     ({..<totaliksknumbus div iksknumbus} \<times> {..<iksknumbus} \<times> {..<wordsinbus digits})
     {..<totaliksknumbus * wordsinbus digits}"
proof -
  have "0 < wordsinbus digits"
    using assms by (simp add: wordsinbus_def bus_defs div_greater_zero_iff)
  from bij_betw_radix3 [OF _ this, of iksknumbus "totaliksknumbus div iksknumbus"]
  show ?thesis by (simp add: iksk_index_def bus_defs)
qed

lemma bkntt_index_bij:
  "bij_betw (\<lambda>(cycle, bus, word). bkntt_index cycle bus word)
     ({..<numcycle} \<times> {..<bknumbus div 2} \<times> {..<buswords}) {..<1024}"
proof -
  have "(\<lambda>(cycle, bus, word). bkntt_index cycle bus word) = (\<lambda>(a, b, x). a * 4 * 8 + b * 8 + x)"
    by (auto simp: bkntt_index_def bus_defs fun_eq_iff)
  with bij_betw_radix3 [of 4 8 32] show ?thesis by (simp add: bus_defs)
qed

lemma bkntt_slot_bij:
  "bij_betw (\<lambda>(k, bus). bkntt_slot k bus) ({..<2} \<times> {..<bknumbus div 2}) {..<bknumbus}"
proof -
  have "(\<lambda>(k, bus). bkntt_slot k bus) = (\<lambda>(a, x). a * 4 + x)"
    by (auto simp: bkntt_slot_def bus_defs fun_eq_iff)
  with bij_betw_radix [of 4 2] show ?thesis by (simp add: bus_defs)
qed



text \<open>C35. Every device buffer has a memory bank of its own, and with the three scalar arguments of a
  run the kernel arguments 0 to 23 are each set to one thing.\<close>

theorem hoge_buffers_disjoint:
  assumes "and topo 31 = 0"
  shows "distinct (map snd (buffer_flags topo)) \<and>
         distinct (map fst buffer_args) \<and> set (map fst buffer_args) = {3..<24} \<and>
         map fst (buffer_flags topo) = map snd buffer_args"
proof -
  have low: "and (PC_NAME topo n) 31 = word_of_nat n" if "n < 32" for n
  proof -
    have "\<forall>k \<in> set [0..<32]. and (word_of_nat k :: uint) 31 = word_of_nat k"
      by code_simp
    then have "and (word_of_nat n :: uint) 31 = word_of_nat n"
      using that by simp
    then show ?thesis
      using assms by (simp add: PC_NAME_def bit.conj_disj_distrib2)
  qed
  have inj: "inj_on (PC_NAME topo) {..<32}"
  proof (rule inj_onI)
    fix i j
    assume ij: "i \<in> {..<32}" "j \<in> {..<32}" and "PC_NAME topo i = PC_NAME topo j"
    then have "(word_of_nat i :: uint) = word_of_nat j" using low by (metis lessThan_iff)
    then have "unat (word_of_nat i :: uint) = unat (word_of_nat j :: uint)" by simp
    then show "i = j" using ij by (simp add: unat_of_nat)
  qed
  have "map snd (buffer_flags topo) = map (PC_NAME topo) ([0..<13] @ [20..<28])"
    by (simp add: buffer_flags_def pc_def bus_defs upt_rec numeral_eq_Suc)
  moreover have "inj_on (PC_NAME topo) (set ([0..<13] @ [20..<28]))"
    by (rule inj_on_subset [OF inj]) auto
  then have "distinct (map (PC_NAME topo) ([0..<13] @ [20..<28]))"
    unfolding distinct_map by simp
  ultimately have "distinct (map snd (buffer_flags topo))" by simp
  moreover have args: "map fst buffer_args = [3..<24]"
    and "map fst (buffer_flags topo) = map snd buffer_args"
    by (simp_all add: buffer_args_def buffer_flags_def bus_defs upt_rec)
  moreover have "distinct (map fst buffer_args)" and "set (map fst buffer_args) = {3..<24}"
    unfolding args by (simp_all only: distinct_upt set_upt)
  ultimately show ?thesis by blast
qed

theorem hoge_buffers_disjoint_witness: "distinct (map snd (buffer_flags (2 ^ 31)))"
  using hoge_buffers_disjoint [of "2 ^ 31"] by simp

lemma select_device_first:
  "select_device host bins ds = Inr d \<Longrightarrow>
   \<exists>i < length ds. ds ! i = d \<and> dev_program host bins d \<and> (\<forall>j < i. \<not> dev_program host bins (ds ! j))"
proof (induction host bins ds rule: select_device.induct)
  case (2 host bins e ds)
  show ?case
  proof (cases "dev_program host bins e")
    case True
    then show ?thesis using "2.prems" by (intro exI [of _ 0]) (auto split: if_split_asm)
  next
    case False
    with 2 obtain i where "i < length ds" "ds ! i = d" "dev_program host bins d"
      "\<forall>j < i. \<not> dev_program host bins (ds ! j)" by (auto split: if_split_asm)
    with False show ?thesis by (intro exI [of _ "Suc i"]) (auto simp: nth_Cons split: nat.split)
  qed
qed simp

text \<open>C36. Device selection takes the first device that accepts the bitstream: an initialisation that
  returns has read the file, has listed the devices of the first platform called Xilinx, and has chosen a
  device of that list that accepts the file's contents, while no earlier device of the list does.\<close>

theorem HOGEinit_first_device:
  assumes "HOGEinit topo host binaryFile setup_ok = Inr r"
  shows "\<exists>ps k ds bins i. cl_platforms host = Some ps \<and> k < length ps \<and> pl_name (ps ! k) = Some ''Xilinx'' \<and>
           (\<forall>j < k. pl_name (ps ! j) \<noteq> Some ''Xilinx'') \<and> pl_devices (ps ! k) = Some ds \<and>
           bin_files host binaryFile = Some bins \<and> i < length ds \<and> ds ! i = hs_device r \<and>
           dev_program host bins (ds ! i) \<and> (\<forall>j < i. \<not> dev_program host bins (ds ! j))"
proof -
  from assms obtain ds bins where "get_devices (cl_platforms host) ''Xilinx'' = Inr ds"
    and "bin_files host binaryFile = Some bins" and "select_device host bins ds = Inr (hs_device r)"
    by (auto simp: HOGEinit_def get_xil_devices_def read_binary_file_def rbind_def rguard_def
        split: sum.split_asm option.split_asm if_split_asm)
  moreover obtain ps k where "cl_platforms host = Some ps" "k < length ps" "pl_name (ps ! k) = Some ''Xilinx''"
    "pl_devices (ps ! k) = Some ds" "\<forall>j < k. pl_name (ps ! j) \<noteq> Some ''Xilinx''"
    using get_devices_first [OF calculation(1)] by auto
  moreover obtain i where "i < length ds" "ds ! i = hs_device r" "dev_program host bins (hs_device r)"
    "\<forall>j < i. \<not> dev_program host bins (ds ! j)"
    using select_device_first [OF calculation(3)] by auto
  ultimately show ?thesis
    by (intro exI [of _ ps] exI [of _ k] exI [of _ ds] exI [of _ bins] exI [of _ i]) simp
qed

definition sample_devices :: hoge_host where
  "sample_devices = \<lparr>cl_platforms = Some [\<lparr>pl_name = Some ''Other'', pl_devices = None\<rparr>,
       \<lparr>pl_name = Some ''Xilinx'', pl_devices = Some [0, 1, 2]\<rparr>],
     bin_files = [''hoge.xclbin'' \<mapsto> [1, 2]], dev_context = (\<lambda>_. True), dev_queue = (\<lambda>_. True),
     dev_program = (\<lambda>_ i. i = 1), dev_kernel = (\<lambda>_. True)\<rparr>"

theorem HOGEinit_first_device_witness:
  "\<exists>r. HOGEinit 0 sample_devices ''hoge.xclbin'' True = Inr r \<and> hs_device r = 1"
proof -
  obtain r where r: "HOGEinit 0 sample_devices ''hoge.xclbin'' True = Inr r"
    by (auto simp: HOGEinit_def sample_devices_def get_xil_devices_def get_devices_def ocl_check_def rbind_def
        read_binary_file_def rguard_def)
  then show ?thesis
    using HOGEinit_first_device [OF r] by (auto simp: sample_devices_def)
qed

text \<open>C32. The multiplexer of the FPGA back end is correct: with inputs that encode select, whenTrue
  and whenFalse, the buffer written encodes the selected bit, within the noise
  that the next gate accepts, when that is at least twice the noise of a bootstrapping.\<close>

theorem HOGEMUXwrap_mux:
  fixes api :: "'w::len word hoge_api"
  assumes "level_ok (hg_mu api) B M" and "0 \<le> Bo" and "2 * Bo \<le> B"
    and "hoge_contract (hg_n api) key (hg_mu api) Bo M (hg_kernel api)"
    and "hoge_ready api s" and "length b0 = Suc (hg_n api)"
    and "encodes (hg_n api) key (hg_mu api) B sel b1"
    and "encodes (hg_n api) key (hg_mu api) B c1 b2" and "encodes (hg_n api) key (hg_mu api) B c0 b3"
  shows "\<exists>r s'. HOGEMUXwrap False api [b0, b1, b2, b3] s = Inr ([r, b1, b2, b3], s') \<and>
           encodes (hg_n api) key (hg_mu api) B (if sel then c1 else c0) r"
proof -
  note parts = hoge_mux_parts [OF assms(1,4,7,8,9)]
  have "encodes (hg_n api) key (hg_mu api) B (sel \<and> c1 \<or> \<not> sel \<and> c0)
      (combined (hg_n api) False (hg_kernel api 0 0 2 b1 b2) (hg_kernel api 2 0 2 b1 b3) (hg_mu api))"
    using parts level_noise [OF assms(1)] assms(2,3)
    by (intro encodes_mono [OF encodes_combined assms(3)]) auto
  moreover have "(sel \<and> c1 \<or> \<not> sel \<and> c0) = (if sel then c1 else c0)" by simp
  ultimately show ?thesis
    using HOGEMUXwrap_run [OF assms(5,6), of b1 b2 b3 False] parts assms(7-9)
    by (auto simp: encodes_def)
qed

definition sample_hoge :: "32 word hoge_api" where
  "sample_hoge = \<lparr>hg_n = 0, hg_mu = 2 ^ 29,
     hg_kernel = (\<lambda>sa sb so. sign_gate (2 ^ 29) (hoge_scale sa) (hoge_scale sb)
        (word_of_int (hoge_scale so) * 2 ^ 29)),
     hg_status = (\<lambda>_. True)\<rparr>"

definition sample_hoge_state :: "32 word hoge_state" where
  "sample_hoge_state = \<lparr>buftlwea = [0], buftlweb = [0], bufres = [0], dev_ina = [0],
     dev_inb = [0], dev_res = [0], scalea = 0, scaleb = 0, offset = 0\<rparr>"

lemma sample_hoge_facts:
  "level_ok (hg_mu sample_hoge) 0 1"
  "hoge_contract (hg_n sample_hoge) [] (hg_mu sample_hoge) 0 1 (hg_kernel sample_hoge)"
  "hoge_ready sample_hoge sample_hoge_state"
  "hg_n sample_hoge = 0" "hg_mu sample_hoge = 2 ^ 29"
  "encodes 0 [] (2 ^ 29) 0 True [2 ^ 29 :: 32 word]" "encodes 0 [] (2 ^ 29) 0 False [- (2 ^ 29) :: 32 word]"
  using sign_gate_contract [of "2 ^ 29 :: 32 word"] level_ok_32
  by (auto simp: sample_hoge_def sample_hoge_state_def hoge_contract_def hoge_ready_def
      encodes_def carries_def lwe_phase_def)

theorem HOGEMUXwrap_mux_witness:
  "\<exists>r s'. HOGEMUXwrap False sample_hoge [[0], [2 ^ 29], [2 ^ 29], [- (2 ^ 29)]] sample_hoge_state =
     Inr ([r, [2 ^ 29], [2 ^ 29], [- (2 ^ 29)]], s') \<and> encodes 0 [] (2 ^ 29) 0 True r"
  using HOGEMUXwrap_mux [OF sample_hoge_facts(1) _ _ sample_hoge_facts(2,3), of "[0]" True "[2 ^ 29]" True "[2 ^ 29]"
      False "[- (2 ^ 29)]"] sample_hoge_facts(4-7)
  by simp

text \<open>C33. The negated multiplexer of the FPGA back end does not negate the multiplexer: the phase it
  writes is positive exactly when select is off and whenFalse is set, where the negation of the
  selected bit was meant. The sign of the second partial product is lost.\<close>

theorem HOGEMUXwrap_negate_sign:
  fixes api :: "'w::len word hoge_api"
  assumes "level_ok (hg_mu api) B M" and "0 \<le> Bo" and "2 * Bo \<le> B"
    and "hoge_contract (hg_n api) key (hg_mu api) Bo M (hg_kernel api)"
    and "hoge_ready api s" and "length b0 = Suc (hg_n api)"
    and "encodes (hg_n api) key (hg_mu api) B sel b1"
    and "encodes (hg_n api) key (hg_mu api) B c1 b2" and "encodes (hg_n api) key (hg_mu api) B c0 b3"
  shows "\<exists>r s'. HOGEMUXwrap True api [b0, b1, b2, b3] s = Inr ([r, b1, b2, b3], s') \<and>
           (0 < sint (lwe_phase (hg_n api) key r) \<longleftrightarrow> \<not> sel \<and> c0)"
proof -
  let ?n = "hg_n api" and ?mu = "hg_mu api" and ?m = "2 ^ (LENGTH('w) - 3) :: int"
  let ?a = "hg_kernel api 0 0 2 b1 b2" and ?b = "hg_kernel api 2 0 2 b1 b3"
  note parts = hoge_mux_parts [OF assms(1,4,7,8,9)] 
  have level: "level_ok ?mu Bo M"
    using assms(1-3) by (auto simp: level_ok_def)
  note unit = level_unit [OF level]
  have lens: "length ?a = Suc ?n" "length ?b = Suc ?n"
    using parts by (auto simp: encodes_def)
  have phase: "lwe_phase ?n key (combined ?n True ?a ?b ?mu) =
      word_of_int (- 1) * lwe_phase ?n key ?a + word_of_int 1 * lwe_phase ?n key ?b + word_of_int (- 1) * ?mu"
    by (simp add: phase_combined_negate [OF lens])
  obtain e where e: "\<bar>e\<bar> \<le> 2 * Bo" and
    v: "lwe_phase ?n key (combined ?n True ?a ?b ?mu) =
        word_of_int (gate_sum (- 1) 1 (- 1) (sel \<and> c1) (\<not> sel \<and> c0) * ?m + e)"
    using combination_value [OF level, of "sel \<and> c1" "lwe_phase ?n key ?a" "\<not> sel \<and> c0"
        "lwe_phase ?n key ?b" "- 1" 1 "- 1"] parts
    unfolding phase encodes_def by auto
  have small: "\<bar>e\<bar> < ?m" using e unit(4,6) by linarith
  have "gate_sum (- 1) 1 (- 1) (sel \<and> c1) (\<not> sel \<and> c0) =
      (if \<not> sel \<and> c0 then 1 else if sel \<and> c1 then - 3 else - 1)"
    by (auto simp: gate_sum_def centre_def bit_sign_def)
  then have "0 < sint (lwe_phase ?n key (combined ?n True ?a ?b ?mu)) \<longleftrightarrow> \<not> sel \<and> c0"
    unfolding v using small unit(2) by (subst sint_of_int_small) auto
  then show ?thesis
    using HOGEMUXwrap_run [OF assms(5,6), of b1 b2 b3 True] lens assms(7-9)
    by (auto simp: encodes_def)
qed

theorem HOGEMUXwrap_negate_sign_witness:
  "\<exists>r s'. HOGEMUXwrap True sample_hoge [[0], [2 ^ 29], [- (2 ^ 29)], [2 ^ 29]] sample_hoge_state =
     Inr ([r, [2 ^ 29], [- (2 ^ 29)], [2 ^ 29]], s') \<and> \<not> 0 < sint (lwe_phase 0 [] r)"
  using HOGEMUXwrap_negate_sign [OF sample_hoge_facts(1) _ _ sample_hoge_facts(2,3), of "[0]" True "[2 ^ 29]" False
      "[- (2 ^ 29)]" True "[2 ^ 29]"] sample_hoge_facts(4-7)
  by simp

end
