(* ===== verification/Wrapped_Codelets.thy ===== *)
theory Wrapped_Codelets
  imports Hoge_Wrapper
begin

text \<open>
  The StarPU codelets of Tangor (src/src/wrappedcodelets.cpp,
  src/include/wrappedcodelets.hpp) and their CUDA implementations
  (src/src/cufhepp_starpu.cu). A codelet names a CPU function, with
  USE_CUFHEPP also a CUDA function, the number of buffers and their access
  modes; with USE_HOGE the CPU functions hand the gate to the FPGA when they
  run on worker 0. TFHEpp and cuFHEpp are parameters, with their documented
  gate semantics as contracts. Shown here: on whichever worker a codelet runs,
  the buffer it writes encodes its Boolean gate of the bits it reads, within
  the noise the next gate accepts.
\<close>

section \<open>The libraries\<close>

text \<open>TFHEpp: \<open>kn\<close> is P::k * P::n, \<open>mu\<close> is the constant \<open>\<mu>\<close> of the level.\<close>

record 'a tfhe_api =
  kn :: nat
  mu :: "'a"
  HomGate :: "int \<Rightarrow> int \<Rightarrow> 'a \<Rightarrow> 'a list \<Rightarrow> 'a list \<Rightarrow> 'a list"
  HomNOT :: "'a list \<Rightarrow> 'a list"
  HomMUX :: "'a list \<Rightarrow> 'a list \<Rightarrow> 'a list \<Rightarrow> 'a list"
  HomNMUX :: "'a list \<Rightarrow> 'a list \<Rightarrow> 'a list \<Rightarrow> 'a list"
  HomCONSTANTZERO :: "'a list"

text \<open>The two-input gates of cuFHEpp that the CUDA codelets call.\<close>

datatype bootstrap2 = NandBootstrap | NorBootstrap | XnorBootstrap | AndBootstrap | OrBootstrap
  | XorBootstrap | AndNYBootstrap | AndYNBootstrap | OrNYBootstrap | OrYNBootstrap

text \<open>cuFHEpp: every gate takes the number of the device it runs on.\<close>

record 'a cufhe_api =
  Bootstrap2 :: "bootstrap2 \<Rightarrow> int \<Rightarrow> 'a list \<Rightarrow> 'a list \<Rightarrow> 'a list"
  NotBootstrap :: "int \<Rightarrow> 'a list \<Rightarrow> 'a list"
  MuxBootstrap :: "int \<Rightarrow> 'a list \<Rightarrow> 'a list \<Rightarrow> 'a list \<Rightarrow> 'a list"
  NMuxBootstrap :: "int \<Rightarrow> 'a list \<Rightarrow> 'a list \<Rightarrow> 'a list \<Rightarrow> 'a list"

text \<open>
  The machine a codelet runs on: the libraries, the FPGA when USE_HOGE is
  defined, and the device number StarPU gives for a worker.
\<close>

record 'a platform =
  tfhe :: "'a tfhe_api"
  hoge :: "'a hoge_api option"
  cufhe :: "'a cufhe_api"
  worker_devid :: "int \<Rightarrow> int"

section \<open>CPU functions\<close>

text \<open>The loops that copy a StarPU buffer into a local TLWE.\<close>

definition read_words :: "nat \<Rightarrow> 'a list \<Rightarrow> codelet_error + 'a list" where
  "read_words n b = (if length b < Suc n then Inl BufferOverrun else Inr (take (Suc n) b))"

lemma read_words_same [simp]: "length b = Suc n \<Longrightarrow> read_words n b = Inr b"
  by (simp add: read_words_def)

type_synonym 'w codelet_result = "codelet_error + ('w word list list \<times> 'w word hoge_state)"

text \<open>The test starpu_worker_get_id() == 0 under USE_HOGE.\<close>

definition hoge_worker :: "'a platform \<Rightarrow> int \<Rightarrow> 'a hoge_api option" where
  "hoge_worker p worker = (if worker = 0 then hoge p else None)"

definition HomGateWrap ::
  "'w::len word platform \<Rightarrow> int \<Rightarrow> int \<Rightarrow> int \<Rightarrow> 'w word \<Rightarrow> 'w tlwe list \<Rightarrow> 'w word hoge_state \<Rightarrow>
   'w codelet_result" where
  "HomGateWrap p worker casign cbsign off buffers s =
     (case hoge_worker p worker of
        Some h \<Rightarrow> HOGEwrap h (scale_index casign) (scale_index cbsign)
                    (offset_index (mu (tfhe p)) off) buffers s
      | None \<Rightarrow> (case buffers of
          [b0, b1, b2] \<Rightarrow>
            rbind (read_words (kn (tfhe p)) b1) (\<lambda>ina.
            rbind (read_words (kn (tfhe p)) b2) (\<lambda>inb.
            rbind (copy_words (kn (tfhe p)) (HomGate (tfhe p) casign cbsign off ina inb) b0) (\<lambda>r.
            Inr ([r, b1, b2], s))))
        | _ \<Rightarrow> Inl WrongBufferCount))"

definition HomNOTWrap ::
  "'w::len word platform \<Rightarrow> 'w tlwe list \<Rightarrow> 'w word hoge_state \<Rightarrow> 'w codelet_result" where
  "HomNOTWrap p buffers s =
     (case buffers of
        [b0, b1] \<Rightarrow>
          rbind (read_words (kn (tfhe p)) b1) (\<lambda>ina.
          rbind (copy_words (kn (tfhe p)) (HomNOT (tfhe p) ina) b0) (\<lambda>r.
          Inr ([r, b1], s)))
      | _ \<Rightarrow> Inl WrongBufferCount)"

definition HomMUXWrap ::
  "'w::len word platform \<Rightarrow> int \<Rightarrow> 'w tlwe list \<Rightarrow> 'w word hoge_state \<Rightarrow> 'w codelet_result" where
  "HomMUXWrap p worker buffers s =
     (case hoge_worker p worker of
        Some h \<Rightarrow> HOGEMUXwrap False h buffers s
      | None \<Rightarrow> (case buffers of
          [b0, b1, b2, b3] \<Rightarrow>
            rbind (read_words (kn (tfhe p)) b1) (\<lambda>ins.
            rbind (read_words (kn (tfhe p)) b2) (\<lambda>ina.
            rbind (read_words (kn (tfhe p)) b3) (\<lambda>inb.
            rbind (copy_words (kn (tfhe p)) (HomMUX (tfhe p) ins ina inb) b0) (\<lambda>r.
            Inr ([r, b1, b2, b3], s)))))
        | _ \<Rightarrow> Inl WrongBufferCount))"

definition HomNMUXWrap ::
  "'w::len word platform \<Rightarrow> int \<Rightarrow> 'w tlwe list \<Rightarrow> 'w word hoge_state \<Rightarrow> 'w codelet_result" where
  "HomNMUXWrap p worker buffers s =
     (case hoge_worker p worker of
        Some h \<Rightarrow> HOGEMUXwrap True h buffers s
      | None \<Rightarrow> (case buffers of
          [b0, b1, b2, b3] \<Rightarrow>
            rbind (read_words (kn (tfhe p)) b1) (\<lambda>ins.
            rbind (read_words (kn (tfhe p)) b2) (\<lambda>ina.
            rbind (read_words (kn (tfhe p)) b3) (\<lambda>inb.
            rbind (copy_words (kn (tfhe p)) (HomNMUX (tfhe p) ins ina inb) b0) (\<lambda>r.
            Inr ([r, b1, b2, b3], s)))))
        | _ \<Rightarrow> Inl WrongBufferCount))"

section \<open>CUDA functions\<close>

definition current_cuda_device :: "'a platform \<Rightarrow> int \<Rightarrow> int" where
  "current_cuda_device p worker =
     (let device_id = worker_devid p worker in if device_id < 0 then 0 else device_id)"

definition hom2_wrap ::
  "'w::len word platform \<Rightarrow> int \<Rightarrow> bootstrap2 \<Rightarrow> 'w tlwe list \<Rightarrow> 'w word hoge_state \<Rightarrow>
   'w codelet_result" where
  "hom2_wrap p worker bootstrap buffers s =
     (case buffers of
        [b0, b1, b2] \<Rightarrow>
          rbind (copy_words (kn (tfhe p))
            (Bootstrap2 (cufhe p) bootstrap (current_cuda_device p worker) b1 b2) b0) (\<lambda>r.
          Inr ([r, b1, b2], s))
      | _ \<Rightarrow> Inl WrongBufferCount)"

definition CufheppHomNOTWrap ::
  "'w::len word platform \<Rightarrow> int \<Rightarrow> 'w tlwe list \<Rightarrow> 'w word hoge_state \<Rightarrow> 'w codelet_result" where
  "CufheppHomNOTWrap p worker buffers s =
     (case buffers of
        [b0, b1] \<Rightarrow>
          rbind (copy_words (kn (tfhe p))
            (NotBootstrap (cufhe p) (current_cuda_device p worker) b1) b0) (\<lambda>r.
          Inr ([r, b1], s))
      | _ \<Rightarrow> Inl WrongBufferCount)"

definition CufheppHomMUXWrap ::
  "'w::len word platform \<Rightarrow> int \<Rightarrow> 'w tlwe list \<Rightarrow> 'w word hoge_state \<Rightarrow> 'w codelet_result" where
  "CufheppHomMUXWrap p worker buffers s =
     (case buffers of
        [b0, b1, b2, b3] \<Rightarrow>
          rbind (copy_words (kn (tfhe p))
            (MuxBootstrap (cufhe p) (current_cuda_device p worker) b1 b2 b3) b0) (\<lambda>r.
          Inr ([r, b1, b2, b3], s))
      | _ \<Rightarrow> Inl WrongBufferCount)"

definition CufheppHomNMUXWrap ::
  "'w::len word platform \<Rightarrow> int \<Rightarrow> 'w tlwe list \<Rightarrow> 'w word hoge_state \<Rightarrow> 'w codelet_result" where
  "CufheppHomNMUXWrap p worker buffers s =
     (case buffers of
        [b0, b1, b2, b3] \<Rightarrow>
          rbind (copy_words (kn (tfhe p))
            (NMuxBootstrap (cufhe p) (current_cuda_device p worker) b1 b2 b3) b0) (\<lambda>r.
          Inr ([r, b1, b2, b3], s))
      | _ \<Rightarrow> Inl WrongBufferCount)"

text \<open>
  The CUDA back end is set up only when StarPU has a CUDA worker and the driver
  a device; it is torn down only when it was set up. The state is the flag
  cufhepp_initialized, the calls into cuFHEpp are recorded in order.
\<close>

datatype cufhe_call = SetGPUNum int | Initialize | CleanUp

definition CufheppInitialize ::
  "nat \<Rightarrow> bool \<times> int \<Rightarrow> bool \<times> cufhe_call list \<Rightarrow> bool \<times> (bool \<times> cufhe_call list)" where
  "CufheppInitialize cuda_workers get_count s =
     (if cuda_workers = 0 then (False, s)
      else (let (success, device_count) = get_count in
        if \<not> success \<or> device_count = 0 then (False, s)
        else (True, (True, snd s @ [SetGPUNum device_count, Initialize]))))"

definition CufheppCleanUp :: "bool \<times> cufhe_call list \<Rightarrow> bool \<times> cufhe_call list" where
  "CufheppCleanUp s = (if \<not> fst s then s else (False, snd s @ [CleanUp]))"

section \<open>Codelets\<close>

datatype access_mode = STARPU_W | STARPU_R | STARPU_RW

datatype arch = STARPU_CPU | STARPU_CUDA

text \<open>The implementations a codelet can name; a gate wrapper with its template arguments.\<close>

datatype 'a cpu_func = CpuGate int int "'a" | CpuNOT | CpuMUX | CpuNMUX

datatype cuda_func = CudaGate bootstrap2 | CudaNOT | CudaMUX | CudaNMUX

datatype perf_model = homgate_perf_model | homnot_perf_model | hommux_perf_model

record 'a starpu_codelet =
  cl_where :: "arch list"
  cpu_funcs :: "'a cpu_func"
  cuda_funcs :: "cuda_func option"
  cpu_funcs_name :: string
  nbuffers :: nat
  modes :: "access_mode list"
  model :: perf_model

definition TANGOR_CODELET_WHERE :: "bool \<Rightarrow> arch list" where
  "TANGOR_CODELET_WHERE use_cufhepp = (if use_cufhepp then [STARPU_CPU, STARPU_CUDA] else [STARPU_CPU])"

definition TANGOR_CUDA_IMPL :: "bool \<Rightarrow> cuda_func \<Rightarrow> cuda_func option" where
  "TANGOR_CUDA_IMPL use_cufhepp f = (if use_cufhepp then Some f else None)"

text \<open>The fields that the two-input codelets share.\<close>

definition gate_codelet ::
  "bool \<Rightarrow> int \<Rightarrow> int \<Rightarrow> 'a \<Rightarrow> bootstrap2 \<Rightarrow> string \<Rightarrow> 'a starpu_codelet" where
  "gate_codelet use_cufhepp casign cbsign off boot name =
     \<lparr>cl_where = TANGOR_CODELET_WHERE use_cufhepp,
      cpu_funcs = CpuGate casign cbsign off,
      cuda_funcs = TANGOR_CUDA_IMPL use_cufhepp (CudaGate boot),
      cpu_funcs_name = name, nbuffers = 3, modes = [STARPU_W, STARPU_R, STARPU_R],
      model = homgate_perf_model\<rparr>"

definition clHomNAND :: "bool \<Rightarrow> 'w::len word \<Rightarrow> 'w word starpu_codelet" where
  "clHomNAND cuf m = gate_codelet cuf (- 1) (- 1) m NandBootstrap ''HomNAND''"
definition clHomNOR :: "bool \<Rightarrow> 'w::len word \<Rightarrow> 'w word starpu_codelet" where
  "clHomNOR cuf m = gate_codelet cuf (- 1) (- 1) (- m) NorBootstrap ''HomNOR''"
definition clHomXNOR :: "bool \<Rightarrow> 'w::len word \<Rightarrow> 'w word starpu_codelet" where
  "clHomXNOR cuf m = gate_codelet cuf (- 2) (- 2) (- 2 * m) XnorBootstrap ''HomXNOR''"
definition clHomAND :: "bool \<Rightarrow> 'w::len word \<Rightarrow> 'w word starpu_codelet" where
  "clHomAND cuf m = gate_codelet cuf 1 1 (- m) AndBootstrap ''HomAND''"
definition clHomOR :: "bool \<Rightarrow> 'w::len word \<Rightarrow> 'w word starpu_codelet" where
  "clHomOR cuf m = gate_codelet cuf 1 1 m OrBootstrap ''HomOR''"
definition clHomXOR :: "bool \<Rightarrow> 'w::len word \<Rightarrow> 'w word starpu_codelet" where
  "clHomXOR cuf m = gate_codelet cuf 2 2 (2 * m) XorBootstrap ''HomXOR''"
definition clHomANDNY :: "bool \<Rightarrow> 'w::len word \<Rightarrow> 'w word starpu_codelet" where
  "clHomANDNY cuf m = gate_codelet cuf (- 1) 1 (- m) AndNYBootstrap ''HomANDNY''"
definition clHomANDYN :: "bool \<Rightarrow> 'w::len word \<Rightarrow> 'w word starpu_codelet" where
  "clHomANDYN cuf m = gate_codelet cuf 1 (- 1) (- m) AndYNBootstrap ''HomANDYN''"
definition clHomORNY :: "bool \<Rightarrow> 'w::len word \<Rightarrow> 'w word starpu_codelet" where
  "clHomORNY cuf m = gate_codelet cuf (- 1) 1 m OrNYBootstrap ''HomORNY''"
definition clHomORYN :: "bool \<Rightarrow> 'w::len word \<Rightarrow> 'w word starpu_codelet" where
  "clHomORYN cuf m = gate_codelet cuf 1 (- 1) m OrYNBootstrap ''HomORYN''"

definition clHomNOT :: "bool \<Rightarrow> 'a starpu_codelet" where
  "clHomNOT cuf =
     \<lparr>cl_where = TANGOR_CODELET_WHERE cuf, cpu_funcs = CpuNOT,
      cuda_funcs = TANGOR_CUDA_IMPL cuf CudaNOT,
      cpu_funcs_name = ''HomNOT'', nbuffers = 2, modes = [STARPU_W, STARPU_R],
      model = homnot_perf_model\<rparr>"

definition clHomMUX :: "bool \<Rightarrow> 'a starpu_codelet" where
  "clHomMUX cuf =
     \<lparr>cl_where = TANGOR_CODELET_WHERE cuf, cpu_funcs = CpuMUX,
      cuda_funcs = TANGOR_CUDA_IMPL cuf CudaMUX,
      cpu_funcs_name = ''HomMUX'', nbuffers = 4, modes = [STARPU_W, STARPU_R, STARPU_R, STARPU_R],
      model = hommux_perf_model\<rparr>"

definition clHomNMUX :: "bool \<Rightarrow> 'a starpu_codelet" where
  "clHomNMUX cuf =
     \<lparr>cl_where = TANGOR_CODELET_WHERE cuf, cpu_funcs = CpuNMUX,
      cuda_funcs = TANGOR_CUDA_IMPL cuf CudaNMUX,
      cpu_funcs_name = ''HomNMUX'', nbuffers = 4, modes = [STARPU_W, STARPU_R, STARPU_R, STARPU_R],
      model = hommux_perf_model\<rparr>"

text \<open>One run of a codelet: the worker calls the implementation for its architecture.\<close>

definition run_cpu ::
  "'w::len word platform \<Rightarrow> int \<Rightarrow> 'w word cpu_func \<Rightarrow> 'w tlwe list \<Rightarrow> 'w word hoge_state \<Rightarrow>
   'w codelet_result" where
  "run_cpu p worker f = (case f of
      CpuGate ca cb off \<Rightarrow> HomGateWrap p worker ca cb off
    | CpuNOT \<Rightarrow> HomNOTWrap p
    | CpuMUX \<Rightarrow> HomMUXWrap p worker
    | CpuNMUX \<Rightarrow> HomNMUXWrap p worker)"

definition run_cuda ::
  "'w::len word platform \<Rightarrow> int \<Rightarrow> cuda_func \<Rightarrow> 'w tlwe list \<Rightarrow> 'w word hoge_state \<Rightarrow>
   'w codelet_result" where
  "run_cuda p worker f = (case f of
      CudaGate boot \<Rightarrow> hom2_wrap p worker boot
    | CudaNOT \<Rightarrow> CufheppHomNOTWrap p worker
    | CudaMUX \<Rightarrow> CufheppHomMUXWrap p worker
    | CudaNMUX \<Rightarrow> CufheppHomNMUXWrap p worker)"

definition run_codelet ::
  "'w::len word platform \<Rightarrow> arch \<times> int \<Rightarrow> 'w word starpu_codelet \<Rightarrow> 'w tlwe list \<Rightarrow>
   'w word hoge_state \<Rightarrow> 'w codelet_result" where
  "run_codelet p w cl buffers s =
     (if length buffers \<noteq> nbuffers cl then Inl WrongBufferCount
      else (case fst w of
         STARPU_CPU \<Rightarrow> run_cpu p (snd w) (cpu_funcs cl) buffers s
       | STARPU_CUDA \<Rightarrow> (case cuda_funcs cl of
           Some f \<Rightarrow> run_cuda p (snd w) f buffers s
         | None \<Rightarrow> Inl NoImplementation)))"

section \<open>Contracts of the libraries\<close>

text \<open>
  What TFHEpp and cuFHEpp document: the gates work on samples with noise up to
  \<open>B\<close>; a two-input gate of TFHEpp is the bootstrapped linear combination.
\<close>

definition tfhe_contract ::
  "'w::len word list \<Rightarrow> int \<Rightarrow> int \<Rightarrow> int \<Rightarrow> 'w word tfhe_api \<Rightarrow> bool" where
  "tfhe_contract key B Bo M api \<longleftrightarrow>
     level_ok (mu api) B M \<and> 0 \<le> Bo \<and> 2 * Bo \<le> B \<and>
     homgate_contract (kn api) key (mu api) Bo M (HomGate api) \<and>
     encodes (kn api) key (mu api) B False (HomCONSTANTZERO api) \<and>
     (\<forall>x a. encodes (kn api) key (mu api) B x a \<longrightarrow>
        encodes (kn api) key (mu api) B (\<not> x) (HomNOT api a)) \<and>
     (\<forall>x y z s a b. encodes (kn api) key (mu api) B x s \<longrightarrow>
        encodes (kn api) key (mu api) B y a \<longrightarrow> encodes (kn api) key (mu api) B z b \<longrightarrow>
        encodes (kn api) key (mu api) B (if x then y else z) (HomMUX api s a b) \<and>
        encodes (kn api) key (mu api) B (\<not> (if x then y else z)) (HomNMUX api s a b))"

primrec bootstrap2_fn :: "bootstrap2 \<Rightarrow> bool \<Rightarrow> bool \<Rightarrow> bool" where
  "bootstrap2_fn NandBootstrap = (\<lambda>a b. \<not> (a \<and> b))"
| "bootstrap2_fn NorBootstrap = (\<lambda>a b. \<not> (a \<or> b))"
| "bootstrap2_fn XnorBootstrap = (\<lambda>a b. a = b)"
| "bootstrap2_fn AndBootstrap = (\<lambda>a b. a \<and> b)"
| "bootstrap2_fn OrBootstrap = (\<lambda>a b. a \<or> b)"
| "bootstrap2_fn XorBootstrap = (\<lambda>a b. a \<noteq> b)"
| "bootstrap2_fn AndNYBootstrap = (\<lambda>a b. \<not> a \<and> b)"
| "bootstrap2_fn AndYNBootstrap = (\<lambda>a b. a \<and> \<not> b)"
| "bootstrap2_fn OrNYBootstrap = (\<lambda>a b. \<not> a \<or> b)"
| "bootstrap2_fn OrYNBootstrap = (\<lambda>a b. a \<or> \<not> b)"

definition cufhe_contract ::
  "nat \<Rightarrow> 'w::len word list \<Rightarrow> 'w word \<Rightarrow> int \<Rightarrow> 'w word cufhe_api \<Rightarrow> bool" where
  "cufhe_contract n key m B api \<longleftrightarrow>
     (\<forall>boot dev x y a b. encodes n key m B x a \<longrightarrow> encodes n key m B y b \<longrightarrow>
        encodes n key m B (bootstrap2_fn boot x y) (Bootstrap2 api boot dev a b)) \<and>
     (\<forall>dev x a. encodes n key m B x a \<longrightarrow> encodes n key m B (\<not> x) (NotBootstrap api dev a)) \<and>
     (\<forall>dev x y z s a b. encodes n key m B x s \<longrightarrow> encodes n key m B y a \<longrightarrow> encodes n key m B z b \<longrightarrow>
        encodes n key m B (if x then y else z) (MuxBootstrap api dev s a b) \<and>
        encodes n key m B (\<not> (if x then y else z)) (NMuxBootstrap api dev s a b))"

text \<open>The whole machine: the FPGA, when there is one, works at the same level.\<close>

definition platform_ok ::
  "'w::len word list \<Rightarrow> int \<Rightarrow> int \<Rightarrow> int \<Rightarrow> 'w word platform \<Rightarrow> bool" where
  "platform_ok key B Bo M p \<longleftrightarrow>
     tfhe_contract key B Bo M (tfhe p) \<and> cufhe_contract (kn (tfhe p)) key (mu (tfhe p)) B (cufhe p) \<and>
     (\<forall>h. hoge p = Some h \<longrightarrow> hg_n h = kn (tfhe p) \<and> hg_mu h = mu (tfhe p) \<and>
        hoge_contract (kn (tfhe p)) key (mu (tfhe p)) Bo M (hg_kernel h))"

definition fpga_ready :: "'w::len word platform \<Rightarrow> 'w word hoge_state \<Rightarrow> bool" where
  "fpga_ready p s \<longleftrightarrow> (\<forall>h. hoge p = Some h \<longrightarrow> hoge_ready h s)"

abbreviation cipher :: "'w::len word list \<Rightarrow> int \<Rightarrow> 'w word platform \<Rightarrow> bool \<Rightarrow> 'w tlwe \<Rightarrow> bool" where
  "cipher key B p \<equiv> encodes (kn (tfhe p)) key (mu (tfhe p)) B"

text \<open>
  The result of a run: the first buffer holds a sample for the bit \<open>x\<close>, the
  others are unchanged, and the FPGA is ready for the next gate.
\<close>

definition writes_bit ::
  "'w::len word list \<Rightarrow> int \<Rightarrow> 'w word platform \<Rightarrow> bool \<Rightarrow> 'w tlwe list \<Rightarrow> 'w codelet_result \<Rightarrow> bool" where
  "writes_bit key B p x ins res \<longleftrightarrow>
     (\<exists>r s. res = Inr (r # ins, s) \<and> cipher key B p x r \<and> fpga_ready p s)"

lemma encodes_length: "encodes n key m B x a \<Longrightarrow> length a = Suc n"
  by (simp add: encodes_def)

lemma copy_words_encodes [simp]:
  "encodes n key m B x r \<Longrightarrow> length b0 = Suc n \<Longrightarrow> copy_words n r b0 = Inr r"
  by (simp add: encodes_def)

lemma read_words_encodes [simp]: "encodes n key m B x r \<Longrightarrow> read_words n r = Inr r"
  by (simp add: encodes_def)

text \<open>The constants of the two-input gates.\<close>

lemma codelet_constants:
  "gate_constants_ok (- 1) (- 1) 1 (\<lambda>a b. \<not> (a \<and> b))"
  "gate_constants_ok (- 1) (- 1) (- 1) (\<lambda>a b. \<not> (a \<or> b))"
  "gate_constants_ok (- 2) (- 2) (- 2) (\<lambda>a b. a = b)"
  "gate_constants_ok 1 1 (- 1) (\<lambda>a b. a \<and> b)"
  "gate_constants_ok 1 1 1 (\<lambda>a b. a \<or> b)"
  "gate_constants_ok 2 2 2 (\<lambda>a b. a \<noteq> b)"
  "gate_constants_ok (- 1) 1 (- 1) (\<lambda>a b. \<not> a \<and> b)"
  "gate_constants_ok 1 (- 1) (- 1) (\<lambda>a b. a \<and> \<not> b)"
  "gate_constants_ok (- 1) 1 1 (\<lambda>a b. \<not> a \<or> b)"
  "gate_constants_ok 1 (- 1) 1 (\<lambda>a b. a \<or> \<not> b)"
  unfolding gate_constants_ok_def gate_sum_def centre_def bit_sign_def
  by ((rule exI [of _ 1], simp; fail) | (rule exI [of _ 2], simp; fail))+

text \<open>A two-input codelet on a CPU worker, on the FPGA worker and on a CUDA worker.\<close>

lemma HomGateWrap_correct:
  assumes p: "platform_ok key B Bo M p" and s: "fpga_ready p s"
    and cst: "gate_constants_ok ca cb off f"
    and range: "ca \<in> {1, 2, - 1, - 2}" "cb \<in> {1, 2, - 1, - 2}" "off \<in> {1, 2, - 1, - 2}"
    and b0: "length b0 = Suc (kn (tfhe p))" and a: "cipher key B p x a" and b: "cipher key B p y b"
  shows "writes_bit key B p (f x y) [a, b]
           (HomGateWrap p worker ca cb (word_of_int off * mu (tfhe p)) [b0, a, b] s)"
proof -
  have tfhe: "level_ok (mu (tfhe p)) B M" "0 \<le> Bo" "2 * Bo \<le> B"
    "homgate_contract (kn (tfhe p)) key (mu (tfhe p)) Bo M (HomGate (tfhe p))"
    using p by (auto simp: platform_ok_def tfhe_contract_def)
  show ?thesis
  proof (cases "hoge_worker p worker")
    case None
    have "cipher key B p (f x y) (HomGate (tfhe p) ca cb (word_of_int off * mu (tfhe p)) a b)"
      using linear_gate_correct [OF tfhe(1,4) cst a b] tfhe(2,3) by (auto elim!: encodes_mono)
    then show ?thesis
      using None s b0 a b by (simp add: HomGateWrap_def writes_bit_def)
  next
    case (Some h)
    then have "hoge p = Some h" by (auto simp: hoge_worker_def split: if_splits)
    then have h: "hg_n h = kn (tfhe p)" "hg_mu h = mu (tfhe p)" "hoge_ready h s"
      and contract: "hoge_contract (kn (tfhe p)) key (mu (tfhe p)) Bo M (hg_kernel h)"
      using p s by (auto simp: platform_ok_def fpga_ready_def)
    let ?r = "hg_kernel h (scale_index ca) (scale_index cb)
        (offset_index (mu (tfhe p)) (word_of_int off * mu (tfhe p))) a b"
    have "cipher key Bo p (f x y) ?r"
      using hoge_gate_correct [OF tfhe(1) contract _ a b] cst
      by (simp add: scale_index_inverse [OF range(1)] scale_index_inverse [OF range(2)]
          offset_index_inverse [OF tfhe(1) range(3)])
    then have r: "cipher key B p (f x y) ?r"
      using tfhe(2,3) by (auto elim!: encodes_mono)
    then obtain s' where "HOGEwrap h (scale_index ca) (scale_index cb)
        (offset_index (mu (tfhe p)) (word_of_int off * mu (tfhe p))) [b0, a, b] s =
        Inr ([?r, a, b], s')" and "hoge_ready h s'"
      using HOGEwrap_run [OF h(3), of b0 a b] h(1) b0 encodes_length [OF a] encodes_length [OF b]
        encodes_length [OF r] by metis
    with r show ?thesis
      using Some \<open>hoge p = Some h\<close> by (simp add: HomGateWrap_def writes_bit_def fpga_ready_def)
  qed
qed

lemma gate_codelet_correct:
  assumes p: "platform_ok key B Bo M p" and s: "fpga_ready p s"
    and w: "fst w \<in> set (TANGOR_CODELET_WHERE cuf)"
    and cst: "gate_constants_ok ca cb off (bootstrap2_fn boot)"
    and range: "ca \<in> {1, 2, - 1, - 2}" "cb \<in> {1, 2, - 1, - 2}" "off \<in> {1, 2, - 1, - 2}"
    and b0: "length b0 = Suc (kn (tfhe p))" and a: "cipher key B p x a" and b: "cipher key B p y b"
  shows "writes_bit key B p (bootstrap2_fn boot x y) [a, b]
     (run_codelet p w (gate_codelet cuf ca cb (word_of_int off * mu (tfhe p)) boot nm) [b0, a, b] s)"
proof (cases "fst w")
  case STARPU_CPU
  then show ?thesis
    using HomGateWrap_correct [OF p s cst range b0 a b]
    by (simp add: run_codelet_def gate_codelet_def run_cpu_def)
next
  case STARPU_CUDA
  then have "cuf" using w by (auto simp: TANGOR_CODELET_WHERE_def split: if_splits)
  moreover have "cipher key B p (bootstrap2_fn boot x y)
      (Bootstrap2 (cufhe p) boot (current_cuda_device p (snd w)) a b)"
    using p a b by (auto simp: platform_ok_def cufhe_contract_def)
  ultimately show ?thesis
    using STARPU_CUDA s b0 a b
    by (simp add: run_codelet_def gate_codelet_def run_cuda_def hom2_wrap_def writes_bit_def
        TANGOR_CUDA_IMPL_def)
qed

lemma not_codelet_correct:
  assumes p: "platform_ok key B Bo M p" and s: "fpga_ready p s"
    and w: "fst w \<in> set (TANGOR_CODELET_WHERE cuf)"
    and b0: "length b0 = Suc (kn (tfhe p))" and a: "cipher key B p x a"
  shows "writes_bit key B p (\<not> x) [a] (run_codelet p w (clHomNOT cuf) [b0, a] s)"
proof (cases "fst w")
  case STARPU_CPU
  have "cipher key B p (\<not> x) (HomNOT (tfhe p) a)"
    using p a by (auto simp: platform_ok_def tfhe_contract_def)
  then show ?thesis
    using STARPU_CPU s b0 a
    by (simp add: run_codelet_def clHomNOT_def run_cpu_def HomNOTWrap_def writes_bit_def)
next
  case STARPU_CUDA
  then have "cuf" using w by (auto simp: TANGOR_CODELET_WHERE_def split: if_splits)
  moreover have "cipher key B p (\<not> x) (NotBootstrap (cufhe p) (current_cuda_device p (snd w)) a)"
    using p a by (auto simp: platform_ok_def cufhe_contract_def)
  ultimately show ?thesis
    using STARPU_CUDA s b0 a
    by (simp add: run_codelet_def clHomNOT_def run_cuda_def CufheppHomNOTWrap_def writes_bit_def
        TANGOR_CUDA_IMPL_def)
qed

lemma tfhe_contract_mux:
  assumes "tfhe_contract key B Bo M api" and "encodes (kn api) key (mu api) B x s"
    and "encodes (kn api) key (mu api) B y a" and "encodes (kn api) key (mu api) B z b"
  shows "encodes (kn api) key (mu api) B (if x then y else z) (HomMUX api s a b)"
    and "encodes (kn api) key (mu api) B (\<not> (if x then y else z)) (HomNMUX api s a b)"
  using assms unfolding tfhe_contract_def by metis+

lemma cufhe_contract_mux:
  assumes "cufhe_contract n key m B api" and "encodes n key m B x s"
    and "encodes n key m B y a" and "encodes n key m B z b"
  shows "encodes n key m B (if x then y else z) (MuxBootstrap api dev s a b)"
    and "encodes n key m B (\<not> (if x then y else z)) (NMuxBootstrap api dev s a b)"
  using assms unfolding cufhe_contract_def by metis+

text \<open>A CPU function that the FPGA executes.\<close>

definition on_fpga :: "'a platform \<Rightarrow> arch \<times> int \<Rightarrow> bool" where
  "on_fpga p w \<longleftrightarrow> fst w = STARPU_CPU \<and> hoge_worker p (snd w) \<noteq> None"

lemma hoge_mux_correct:
  assumes p: "platform_ok key B Bo M p" and h: "hoge p = Some h" and s: "hoge_ready h st"
    and b0: "length b0 = Suc (kn (tfhe p))"
    and bits: "cipher key B p x s" "cipher key B p y a" "cipher key B p z b"
  shows "writes_bit key B p (if x then y else z) [s, a, b] (HOGEMUXwrap False h [b0, s, a, b] st)"
proof -
  let ?n = "kn (tfhe p)" and ?mu = "mu (tfhe p)"
  have tfhe: "level_ok ?mu B M" "0 \<le> Bo" "2 * Bo \<le> B"
    using p by (auto simp: platform_ok_def tfhe_contract_def)
  have hoge: "hg_n h = ?n" "hg_mu h = ?mu" "hoge_contract ?n key ?mu Bo M (hg_kernel h)"
    using p h by (auto simp: platform_ok_def)
  note parts = hoge_mux_parts [OF tfhe(1) hoge(3) bits]
  let ?r = "combined ?n False (hg_kernel h 0 0 2 s a) (hg_kernel h 2 0 2 s b) ?mu"
  have "cipher key B p (x \<and> y \<or> \<not> x \<and> z) ?r"
    using parts level_noise [OF tfhe(1)] tfhe(2,3)
    by (intro encodes_mono [OF encodes_combined tfhe(3)]) auto
  moreover have "(x \<and> y \<or> \<not> x \<and> z) = (if x then y else z)" by simp
  moreover obtain s' where "HOGEMUXwrap False h [b0, s, a, b] st = Inr ([?r, s, a, b], s')"
    and "hoge_ready h s'"
    using HOGEMUXwrap_run [OF s, of b0 s a b False] b0 encodes_length [OF bits(1)]
      encodes_length [OF bits(2)] encodes_length [OF bits(3)]
      encodes_length [OF parts(1)] encodes_length [OF parts(2)] hoge(1,2) by auto
  ultimately show ?thesis
    using h by (simp add: writes_bit_def fpga_ready_def)
qed

lemma mux_codelet_correct:
  assumes p: "platform_ok key B Bo M p" and s: "fpga_ready p st"
    and w: "fst w \<in> set (TANGOR_CODELET_WHERE cuf)"
    and b0: "length b0 = Suc (kn (tfhe p))"
    and bits: "cipher key B p x s" "cipher key B p y a" "cipher key B p z b"
  shows "writes_bit key B p (if x then y else z) [s, a, b]
           (run_codelet p w (clHomMUX cuf) [b0, s, a, b] st)"
proof -
  have cpu: "cipher key B p (if x then y else z) (HomMUX (tfhe p) s a b)"
    and cuda: "cipher key B p (if x then y else z)
      (MuxBootstrap (cufhe p) (current_cuda_device p (snd w)) s a b)"
    using p tfhe_contract_mux(1) [OF _ bits] cufhe_contract_mux(1) [OF _ bits]
    unfolding platform_ok_def by blast+
  consider (cpu) "fst w = STARPU_CPU" "hoge_worker p (snd w) = None"
    | (fpga) h where "fst w = STARPU_CPU" "hoge_worker p (snd w) = Some h"
    | (cuda) "fst w = STARPU_CUDA" "cuf"
    using w by (auto simp: TANGOR_CODELET_WHERE_def split: if_splits)
  then show ?thesis
  proof cases
    case cpu
    with \<open>cipher key B p _ (HomMUX _ s a b)\<close> show ?thesis
      using s b0 bits
      by (simp add: run_codelet_def clHomMUX_def run_cpu_def HomMUXWrap_def writes_bit_def)
  next
    case (fpga h)
    then have "hoge p = Some h" by (auto simp: hoge_worker_def split: if_splits)
    with hoge_mux_correct [OF p this _ b0 bits] fpga s show ?thesis
      by (simp add: run_codelet_def clHomMUX_def run_cpu_def HomMUXWrap_def fpga_ready_def)
  next
    case cuda
    with \<open>cipher key B p _ (MuxBootstrap _ _ s a b)\<close> show ?thesis
      using s b0 bits
      by (simp add: run_codelet_def clHomMUX_def run_cuda_def CufheppHomMUXWrap_def writes_bit_def
          TANGOR_CUDA_IMPL_def)
  qed
qed

lemma nmux_codelet_correct:
  assumes p: "platform_ok key B Bo M p" and s: "fpga_ready p st"
    and w: "fst w \<in> set (TANGOR_CODELET_WHERE cuf)" and not_fpga: "\<not> on_fpga p w"
    and b0: "length b0 = Suc (kn (tfhe p))"
    and bits: "cipher key B p x s" "cipher key B p y a" "cipher key B p z b"
  shows "writes_bit key B p (\<not> (if x then y else z)) [s, a, b]
           (run_codelet p w (clHomNMUX cuf) [b0, s, a, b] st)"
proof -
  have cpu: "cipher key B p (\<not> (if x then y else z)) (HomNMUX (tfhe p) s a b)"
    and cuda: "cipher key B p (\<not> (if x then y else z))
      (NMuxBootstrap (cufhe p) (current_cuda_device p (snd w)) s a b)"
    using p tfhe_contract_mux(2) [OF _ bits] cufhe_contract_mux(2) [OF _ bits]
    unfolding platform_ok_def by blast+
  consider (cpu) "fst w = STARPU_CPU" "hoge_worker p (snd w) = None"
    | (cuda) "fst w = STARPU_CUDA" "cuf"
    using w not_fpga by (auto simp: TANGOR_CODELET_WHERE_def on_fpga_def split: if_splits)
  then show ?thesis
  proof cases
    case cpu
    with \<open>cipher key B p _ (HomNMUX _ s a b)\<close> show ?thesis
      using s b0 bits
      by (simp add: run_codelet_def clHomNMUX_def run_cpu_def HomNMUXWrap_def writes_bit_def)
  next
    case cuda
    with \<open>cipher key B p _ (NMuxBootstrap _ _ s a b)\<close> show ?thesis
      using s b0 bits
      by (simp add: run_codelet_def clHomNMUX_def run_cuda_def CufheppHomNMUXWrap_def
          writes_bit_def TANGOR_CUDA_IMPL_def)
  qed
qed

section \<open>The table of codelets and their gates\<close>

definition two_input_codelets ::
  "bool \<Rightarrow> 'w::len word \<Rightarrow> ('w word starpu_codelet \<times> (bool \<Rightarrow> bool \<Rightarrow> bool)) list" where
  "two_input_codelets cuf m =
     [(clHomNAND cuf m, \<lambda>a b. \<not> (a \<and> b)), (clHomNOR cuf m, \<lambda>a b. \<not> (a \<or> b)),
      (clHomXNOR cuf m, \<lambda>a b. a = b), (clHomAND cuf m, \<lambda>a b. a \<and> b),
      (clHomOR cuf m, \<lambda>a b. a \<or> b), (clHomXOR cuf m, \<lambda>a b. a \<noteq> b),
      (clHomANDNY cuf m, \<lambda>a b. \<not> a \<and> b), (clHomANDYN cuf m, \<lambda>a b. a \<and> \<not> b),
      (clHomORNY cuf m, \<lambda>a b. \<not> a \<or> b), (clHomORYN cuf m, \<lambda>a b. a \<or> \<not> b)]"

lemmas gate_codelet_defs = clHomNAND_def clHomNOR_def clHomXNOR_def clHomAND_def clHomOR_def
  clHomXOR_def clHomANDNY_def clHomANDYN_def clHomORNY_def clHomORYN_def

text \<open>Each row is a gate codelet with constants that compute its function.\<close>

definition codelet_rows :: "(int \<times> int \<times> int \<times> bootstrap2 \<times> string) list" where
  "codelet_rows =
     [(- 1, - 1, 1, NandBootstrap, ''HomNAND''), (- 1, - 1, - 1, NorBootstrap, ''HomNOR''),
      (- 2, - 2, - 2, XnorBootstrap, ''HomXNOR''), (1, 1, - 1, AndBootstrap, ''HomAND''),
      (1, 1, 1, OrBootstrap, ''HomOR''), (2, 2, 2, XorBootstrap, ''HomXOR''),
      (- 1, 1, - 1, AndNYBootstrap, ''HomANDNY''), (1, - 1, - 1, AndYNBootstrap, ''HomANDYN''),
      (- 1, 1, 1, OrNYBootstrap, ''HomORNY''), (1, - 1, 1, OrYNBootstrap, ''HomORYN'')]"

lemma two_input_codelets_rows:
  "two_input_codelets cuf m =
     map (\<lambda>(ca, cb, off, boot, nm).
       (gate_codelet cuf ca cb (word_of_int off * m) boot nm, bootstrap2_fn boot)) codelet_rows"
  by (simp add: two_input_codelets_def codelet_rows_def gate_codelet_defs)

lemma codelet_rows_ok:
  "\<forall>(ca, cb, off, boot, nm) \<in> set codelet_rows.
     gate_constants_ok ca cb off (bootstrap2_fn boot) \<and>
     ca \<in> {1, 2, - 1, - 2} \<and> cb \<in> {1, 2, - 1, - 2} \<and> off \<in> {1, 2, - 1, - 2}"
  by (simp add: codelet_rows_def codelet_constants [simplified])

lemma two_input_codelet_correct:
  assumes p: "platform_ok key B Bo M p" and s: "fpga_ready p s"
    and cl: "(cl, f) \<in> set (two_input_codelets cuf (mu (tfhe p)))"
    and w: "fst w \<in> set (cl_where cl)" and b0: "length b0 = Suc (kn (tfhe p))"
    and a: "cipher key B p x a" and b: "cipher key B p y b"
  shows "writes_bit key B p (f x y) [a, b] (run_codelet p w cl [b0, a, b] s)"
proof -
  from cl obtain ca cb off boot nm where row: "(ca, cb, off, boot, nm) \<in> set codelet_rows"
    and cl: "cl = gate_codelet cuf ca cb (word_of_int off * mu (tfhe p)) boot nm"
    and f: "f = bootstrap2_fn boot"
    unfolding two_input_codelets_rows by auto
  from bspec [OF codelet_rows_ok row] have "gate_constants_ok ca cb off (bootstrap2_fn boot)"
    and "ca \<in> {1, 2, - 1, - 2}" and "cb \<in> {1, 2, - 1, - 2}" and "off \<in> {1, 2, - 1, - 2}"
    by (simp_all only: prod.case)
  from gate_codelet_correct [OF p s _ this b0 a b] w show ?thesis
    unfolding cl f by (simp add: gate_codelet_def)
qed

section \<open>A concrete machine\<close>

text \<open>
  Samples of dimension 0 without noise: a CPU library, a CUDA library and an
  FPGA that meet their contracts, for the witnesses.
\<close>

definition exact_bit :: "32 word list \<Rightarrow> bool" where
  "exact_bit a = (0 < sint (a ! 0))"

definition exact_sample :: "bool \<Rightarrow> 32 word list" where
  "exact_sample x = [if x then 2 ^ 29 else - (2 ^ 29)]"

definition sample_platform :: "32 word hoge_api option \<Rightarrow> 32 word platform" where
  "sample_platform fpga =
     \<lparr>tfhe = \<lparr>kn = 0, mu = 2 ^ 29, HomGate = sign_gate (2 ^ 29),
        HomNOT = (\<lambda>a. exact_sample (\<not> exact_bit a)),
        HomMUX = (\<lambda>s a b. exact_sample (if exact_bit s then exact_bit a else exact_bit b)),
        HomNMUX = (\<lambda>s a b. exact_sample (\<not> (if exact_bit s then exact_bit a else exact_bit b))),
        HomCONSTANTZERO = exact_sample False\<rparr>,
      hoge = fpga,
      cufhe = \<lparr>Bootstrap2 = (\<lambda>boot dev a b. exact_sample (bootstrap2_fn boot (exact_bit a) (exact_bit b))),
        NotBootstrap = (\<lambda>dev a. exact_sample (\<not> exact_bit a)),
        MuxBootstrap = (\<lambda>dev s a b. exact_sample (if exact_bit s then exact_bit a else exact_bit b)),
        NMuxBootstrap = (\<lambda>dev s a b. exact_sample (\<not> (if exact_bit s then exact_bit a else exact_bit b)))\<rparr>,
      worker_devid = (\<lambda>w. w - 1)\<rparr>"

lemma encodes_exact: "encodes 0 [] 536870912 0 x a \<longleftrightarrow> a = exact_sample x"
proof (cases a)
  case (Cons v vs)
  have "sint (v - c) = 0 \<longleftrightarrow> v = c" for c
    by (metis eq_iff_diff_eq_0 signed_0 signed_word_eqI)
  from this [of 536870912] this [of "- 536870912"] show ?thesis
    using Cons by (auto simp: encodes_def carries_def lwe_phase_def exact_sample_def)
qed (simp add: encodes_def exact_sample_def)

lemma sample_platform_simps [simp]:
  "kn (tfhe (sample_platform h)) = 0" "mu (tfhe (sample_platform h)) = 536870912"
  "hoge (sample_platform h) = h"
  by (simp_all add: sample_platform_def)

lemma exact_bit_sample [simp]: "exact_bit (exact_sample x) = x"
  by (simp add: exact_bit_def exact_sample_def)

lemma sample_platform_ok:
  "platform_ok [] 0 0 1 (sample_platform None)" "platform_ok [] 0 0 1 (sample_platform (Some sample_hoge))"
  using sample_hoge_facts sign_gate_contract [of "2 ^ 29 :: 32 word"] level_ok_32
  by (simp_all add: platform_ok_def sample_platform_def tfhe_contract_def cufhe_contract_def
      encodes_exact)

lemma sample_platform_ready: "fpga_ready (sample_platform None) s"
  "fpga_ready (sample_platform (Some sample_hoge)) sample_hoge_state"
  using sample_hoge_facts by (simp_all add: fpga_ready_def sample_platform_def)

section \<open>Properties\<close>

text \<open>C5. Every two-input codelet computes the Boolean gate it is named after, on every worker StarPU
  may choose for it: the CPU function with its casign, cbsign and offset, the FPGA run that its
  constants select, and the CUDA function. The run does not fail, it leaves the inputs as they
  were, and its result is within the noise that the next gate accepts.\<close>

theorem two_input_codelets_compute_gates:
  assumes "platform_ok key B Bo M p" and "fpga_ready p s"
    and "(cl, f) \<in> set (two_input_codelets cuf (mu (tfhe p)))" and "fst w \<in> set (cl_where cl)"
    and "length b0 = Suc (kn (tfhe p))" and "cipher key B p x a" and "cipher key B p y b"
  shows "\<exists>r s'. run_codelet p w cl [b0, a, b] s = Inr ([r, a, b], s') \<and> cipher key B p (f x y) r \<and>
           fpga_ready p s'"
  using two_input_codelet_correct [OF assms] by (simp add: writes_bit_def)

theorem two_input_codelets_compute_gates_witness:
  "\<exists>r s'. run_codelet (sample_platform (Some sample_hoge)) (STARPU_CPU, 0) (clHomXOR True (2 ^ 29))
      [[0], exact_sample True, exact_sample False] sample_hoge_state =
      Inr ([r, exact_sample True, exact_sample False], s') \<and> r = exact_sample True"
proof -
  let ?p = "sample_platform (Some sample_hoge)"
  have "(clHomXOR True (mu (tfhe ?p)), \<lambda>a b. a \<noteq> b) \<in> set (two_input_codelets True (mu (tfhe ?p)))"
    by (simp add: two_input_codelets_def)
  from two_input_codelets_compute_gates
    [OF sample_platform_ok(2) sample_platform_ready(2) this, of "(STARPU_CPU, 0)" "[0]" True
      "exact_sample True" False "exact_sample False"]
  show ?thesis
    by (auto simp: gate_codelet_defs gate_codelet_def TANGOR_CODELET_WHERE_def encodes_exact)
qed

text \<open>C22. The one-input and three-input codelets are right as well: NOT negates, MUX takes its second
  input when the first is set and its third otherwise, and NMUX negates that wherever the FPGA does
  not execute it.\<close>

theorem not_and_mux_codelets_compute_gates:
  assumes "platform_ok key B Bo M p" and "fpga_ready p st"
    and "fst w \<in> set (TANGOR_CODELET_WHERE cuf)" and "length b0 = Suc (kn (tfhe p))"
    and "cipher key B p x s" and "cipher key B p y a" and "cipher key B p z b"
  shows "(\<exists>r s'. run_codelet p w (clHomNOT cuf) [b0, s] st = Inr ([r, s], s') \<and> cipher key B p (\<not> x) r) \<and>
         (\<exists>r s'. run_codelet p w (clHomMUX cuf) [b0, s, a, b] st = Inr ([r, s, a, b], s') \<and>
            cipher key B p (if x then y else z) r) \<and>
         (\<not> on_fpga p w \<longrightarrow>
          (\<exists>r s'. run_codelet p w (clHomNMUX cuf) [b0, s, a, b] st = Inr ([r, s, a, b], s') \<and>
            cipher key B p (\<not> (if x then y else z)) r))"
  using not_codelet_correct [OF assms(1-5)] mux_codelet_correct [OF assms]
    nmux_codelet_correct [OF assms(1-3) _ assms(4-7)]
  unfolding writes_bit_def by blast

theorem not_and_mux_codelets_compute_gates_witness:
  "\<exists>r s'. run_codelet (sample_platform None) (STARPU_CUDA, 3) (clHomNMUX True)
      [[0], exact_sample False, exact_sample True, exact_sample False] sample_hoge_state =
      Inr ([r, exact_sample False, exact_sample True, exact_sample False], s') \<and> r = exact_sample True"
  using not_and_mux_codelets_compute_gates
    [OF sample_platform_ok(1) sample_platform_ready(1), of "(STARPU_CUDA, 3)" True "[0]" False
      "exact_sample False" True "exact_sample True" False "exact_sample False" sample_hoge_state]
  by (simp add: TANGOR_CODELET_WHERE_def encodes_exact on_fpga_def
      hoge_worker_def)

text \<open>The CUDA library is cleaned up exactly when it was initialised, once, after its
  initialisation: without a CUDA worker or a CUDA device neither call is made.\<close>

lemma cufhepp_lifecycle:
  "CufheppCleanUp (snd (CufheppInitialize workers count (False, calls))) =
     (False, calls @ (if fst (CufheppInitialize workers count (False, calls))
                    then [SetGPUNum (snd count), Initialize, CleanUp] else [])) \<and>
   (fst (CufheppInitialize workers count (False, calls)) \<longleftrightarrow> workers > 0 \<and> fst count \<and> snd count \<noteq> 0) \<and>
   CufheppCleanUp (CufheppCleanUp st) = CufheppCleanUp st"
  by (auto simp: CufheppInitialize_def CufheppCleanUp_def split: prod.split)

end
