(* ===== verification/Dataflow_Tasks.thy ===== *)
theory Dataflow_Tasks
  imports Tangor_Prelude
begin

text \<open>
  The contract of the StarPU task runtime that both evaluators rely on. A
  program submits tasks; each task declares the handles it reads and the
  handles it writes. StarPU documents sequential data consistency: a task may
  start as soon as no earlier submitted task that is still unfinished
  conflicts with it, and any tasks that may start can overlap. The relation
  \<open>starpu_step\<close> states exactly that, for any choice of worker and any
  interleaving. The locale \<open>dataflow\<close> is the interface a client's tasks
  must meet; inside it every completed run is shown to end in the store of the
  sequential run in submission order, no two overlapping tasks race, no run
  gets stuck, and every run ends.
\<close>

section \<open>Conflicts and the step relation\<close>

definition conflict :: "('t \<Rightarrow> 'h set) \<Rightarrow> ('t \<Rightarrow> 'h set) \<Rightarrow> 't \<Rightarrow> 't \<Rightarrow> bool" where
  "conflict rd wr t u \<longleftrightarrow>
     wr t \<inter> (rd u \<union> wr u) \<noteq> {} \<or> wr u \<inter> rd t \<noteq> {}"

text \<open>
  A configuration is the list of unfinished tasks in submission order, each
  with a flag that says whether a worker has started it, and the store.
\<close>

type_synonym ('t, 'h, 'v) starpu_conf = "('t \<times> bool) list \<times> ('h \<Rightarrow> 'v)"

inductive starpu_step ::
  "('t \<Rightarrow> 'h set) \<Rightarrow> ('t \<Rightarrow> 'h set) \<Rightarrow> ('t \<Rightarrow> ('h \<Rightarrow> 'v) \<Rightarrow> 'h \<Rightarrow> 'v) \<Rightarrow>
   ('t, 'h, 'v) starpu_conf \<Rightarrow> ('t, 'h, 'v) starpu_conf \<Rightarrow> bool"
  for rd wr run where
  start: "\<forall>u \<in> fst ` set xs. \<not> conflict rd wr u t \<Longrightarrow>
     starpu_step rd wr run (xs @ (t, False) # ys, s) (xs @ (t, True) # ys, s)"
| finish: "starpu_step rd wr run (xs @ (t, True) # ys, s) (xs @ ys, run t s)"

abbreviation starpu_run ::
  "('t \<Rightarrow> 'h set) \<Rightarrow> ('t \<Rightarrow> 'h set) \<Rightarrow> ('t \<Rightarrow> ('h \<Rightarrow> 'v) \<Rightarrow> 'h \<Rightarrow> 'v) \<Rightarrow>
   ('t, 'h, 'v) starpu_conf \<Rightarrow> ('t, 'h, 'v) starpu_conf \<Rightarrow> bool" where
  "starpu_run rd wr run \<equiv> (starpu_step rd wr run)\<^sup>*\<^sup>*"

definition submitted :: "'t list \<Rightarrow> ('t \<times> bool) list" where
  "submitted ts = map (\<lambda>t. (t, False)) ts"

definition run_in_order :: "('t \<Rightarrow> ('h \<Rightarrow> 'v) \<Rightarrow> 'h \<Rightarrow> 'v) \<Rightarrow> 't list \<Rightarrow> ('h \<Rightarrow> 'v) \<Rightarrow> 'h \<Rightarrow> 'v" where
  "run_in_order run ts s = fold run ts s"

text \<open>The started tasks conflict with nothing submitted before them.\<close>

fun starts_ok :: "('t \<Rightarrow> 'h set) \<Rightarrow> ('t \<Rightarrow> 'h set) \<Rightarrow> 't list \<Rightarrow> ('t \<times> bool) list \<Rightarrow> bool" where
  "starts_ok rd wr before [] = True"
| "starts_ok rd wr before ((t, b) # q) =
     ((b \<longrightarrow> (\<forall>u \<in> set before. \<not> conflict rd wr u t)) \<and> starts_ok rd wr (before @ [t]) q)"

lemma conflict_sym: "conflict rd wr t u \<Longrightarrow> conflict rd wr u t"
  by (auto simp: conflict_def)

lemma run_in_order_append:
  "run_in_order run (xs @ ys) s = run_in_order run ys (run_in_order run xs s)"
  by (simp add: run_in_order_def)

lemma run_in_order_Cons [simp]:
  "run_in_order run (t # ts) s = run_in_order run ts (run t s)"
  by (simp add: run_in_order_def)

lemma run_in_order_Nil [simp]: "run_in_order run [] s = s"
  by (simp add: run_in_order_def)

lemma starts_ok_append:
  "starts_ok rd wr b (xs @ ys) \<longleftrightarrow>
     starts_ok rd wr b xs \<and> starts_ok rd wr (b @ map fst xs) ys"
  by (induction rd wr b xs rule: starts_ok.induct) auto

lemma starts_ok_submitted: "starts_ok rd wr b (submitted ts)"
  unfolding submitted_def by (induction ts arbitrary: b) auto

lemma starts_ok_mono:
  "starts_ok rd wr b q \<Longrightarrow> set b' \<subseteq> set b \<Longrightarrow> starts_ok rd wr b' q"
proof (induction rd wr b q arbitrary: b' rule: starts_ok.induct)
  case (1 rd wr before)
  then show ?case by simp
next
  case (2 rd wr before t b q)
  from "2.prems" have "starts_ok rd wr (before @ [t]) q" and "set (b' @ [t]) \<subseteq> set (before @ [t])"
    by auto
  then have "starts_ok rd wr (b' @ [t]) q" by (rule "2.IH")
  with "2.prems" show ?case by auto
qed

lemma starpu_step_starts_ok:
  assumes "starpu_step rd wr run c c'" and "starts_ok rd wr [] (fst c)"
  shows "starts_ok rd wr [] (fst c')"
  using assms
proof (induction rule: starpu_step.induct)
  case (start xs t ys s)
  then show ?case by (auto simp: starts_ok_append)
next
  case (finish xs t ys s)
  then have "starts_ok rd wr (map fst xs @ [t]) ys" and "starts_ok rd wr [] xs"
    by (auto simp: starts_ok_append)
  then show ?case
    using starts_ok_mono [of rd wr "map fst xs @ [t]" ys "map fst xs"]
    by (auto simp: starts_ok_append)
qed

lemma starpu_run_starts_ok:
  assumes "starpu_run rd wr run c c'" and "starts_ok rd wr [] (fst c)"
  shows "starts_ok rd wr [] (fst c')"
  using assms
  by (induction rule: rtranclp_induct) (auto intro: starpu_step_starts_ok)

text \<open>Two tasks that a worker has started never conflict, so they cannot race.\<close>

lemma starts_ok_no_race:
  assumes "starts_ok rd wr [] q" and "i < j" and "j < length q" and "snd (q ! j)"
  shows "\<not> conflict rd wr (fst (q ! i)) (fst (q ! j))"
proof -
  have "q = take j q @ q ! j # drop (Suc j) q"
    using assms(3) by (simp add: id_take_nth_drop)
  moreover have "q ! j = (fst (q ! j), True)"
    using assms(4) by (cases "q ! j") auto
  ultimately have "starts_ok rd wr (map fst (take j q)) ((fst (q ! j), True) # drop (Suc j) q)"
    using assms(1) by (metis append_Nil starts_ok_append)
  then have "\<forall>u \<in> set (map fst (take j q)). \<not> conflict rd wr u (fst (q ! j))"
    by simp
  moreover have "fst (q ! i) \<in> set (map fst (take j q))"
    using assms(2,3) by (auto simp: in_set_conv_nth intro!: image_eqI exI [of _ i])
  ultimately show ?thesis by blast
qed

text \<open>Progress and termination do not depend on what the tasks compute.\<close>

definition todo :: "('t \<times> bool) list \<Rightarrow> nat" where
  "todo q = sum_list (map (\<lambda>(t, b). if b then 1 else 2) q)"

lemma starpu_step_todo: "starpu_step rd wr run c c' \<Longrightarrow> todo (fst c') < todo (fst c)"
  by (induction rule: starpu_step.induct) (auto simp: todo_def)

lemma starpu_progress:
  assumes "q \<noteq> []"
  shows "\<exists>c'. starpu_step rd wr run (q, s) c'"
proof -
  obtain t b q' where q: "q = (t, b) # q'"
    using assms by (metis list.exhaust surj_pair)
  show ?thesis
  proof (cases b)
    case True
    then show ?thesis
      using starpu_step.finish [of rd wr run "[]" t q' s] q by auto
  next
    case False
    then show ?thesis
      using starpu_step.start [of "[]" rd wr t run q' s] q by auto
  qed
qed

lemma starpu_run_completes: "\<exists>s'. starpu_run rd wr run (q, s) ([], s')"
proof (induction "todo q" arbitrary: q s rule: less_induct)
  case less
  show ?case
  proof (cases "q = []")
    case True
    then show ?thesis by auto
  next
    case False
    then obtain q' s' where step: "starpu_step rd wr run (q, s) (q', s')"
      using starpu_progress by (metis surj_pair)
    then have "todo q' < todo q"
      using starpu_step_todo by fastforce
    then obtain s'' where "starpu_run rd wr run (q', s') ([], s'')"
      using less by blast
    with step show ?thesis
      by (meson converse_rtranclp_into_rtranclp)
  qed
qed

section \<open>The interface of a client's tasks\<close>

locale dataflow =
  fixes rd wr :: "'t \<Rightarrow> 'h set"
    and run :: "'t \<Rightarrow> ('h \<Rightarrow> 'v) \<Rightarrow> 'h \<Rightarrow> 'v"
  assumes frame: "h \<notin> wr t \<Longrightarrow> run t s h = s h"
    and local: "(\<forall>h \<in> rd t \<union> wr t. s h = s' h) \<Longrightarrow> h \<in> wr t \<Longrightarrow> run t s h = run t s' h"
begin

lemma commute:
  assumes "\<not> conflict rd wr t u"
  shows "run t (run u s) = run u (run t s)"
proof
  fix h
  have t_in: "\<forall>k \<in> rd t \<union> wr t. run u s k = s k"
    and u_in: "\<forall>k \<in> rd u \<union> wr u. run t s k = s k"
    using assms by (auto simp: conflict_def intro!: frame)
  consider "h \<in> wr t" "h \<notin> wr u" | "h \<in> wr u" "h \<notin> wr t" | "h \<notin> wr t" "h \<notin> wr u"
    using assms by (auto simp: conflict_def)
  then show "run t (run u s) h = run u (run t s) h"
  proof cases
    case 1
    then show ?thesis using local [OF t_in] frame by metis
  next
    case 2
    then show ?thesis using local [OF u_in] frame by metis
  next
    case 3
    then show ?thesis using frame by metis
  qed
qed

lemma run_first:
  assumes "\<forall>u \<in> set us. \<not> conflict rd wr u t"
  shows "run_in_order run (us @ t # vs) s = run_in_order run (us @ vs) (run t s)"
  using assms
proof (induction us arbitrary: s)
  case Nil
  then show ?case by simp
next
  case (Cons u us)
  then show ?case using commute [of u t s] by simp
qed

lemma step_keeps_result:
  assumes "starpu_step rd wr run c c'" and "starts_ok rd wr [] (fst c)"
  shows "run_in_order run (map fst (fst c')) (snd c') = run_in_order run (map fst (fst c)) (snd c)"
  using assms
proof (induction rule: starpu_step.induct)
  case (start xs t ys s)
  then show ?case by simp
next
  case (finish xs t ys s)
  then have "\<forall>u \<in> set (map fst xs). \<not> conflict rd wr u t"
    by (auto simp: starts_ok_append)
  from run_first [OF this] show ?case by simp
qed

lemma run_keeps_result:
  assumes "starpu_run rd wr run c c'" and "starts_ok rd wr [] (fst c)"
  shows "run_in_order run (map fst (fst c')) (snd c') = run_in_order run (map fst (fst c)) (snd c)"
  using assms
proof (induction rule: rtranclp_induct)
  case base
  then show ?case by simp
next
  case (step d e)
  then show ?case
    using step_keeps_result starpu_run_starts_ok by metis
qed

text \<open>Every completed run of submitted tasks ends as the sequential run does.\<close>

lemma deterministic:
  assumes "starpu_run rd wr run (submitted ts, s) ([], s')"
  shows "s' = run_in_order run ts s"
proof -
  have "map fst (submitted ts) = ts"
    by (simp add: submitted_def comp_def)
  then show ?thesis
    using run_keeps_result [OF assms] starts_ok_submitted by fastforce
qed

lemma sequential_reached: "starpu_run rd wr run (submitted ts, s) ([], run_in_order run ts s)"
  using starpu_run_completes deterministic by metis

lemma completed_iff:
  "starpu_run rd wr run (submitted ts, s) ([], s') \<longleftrightarrow> s' = run_in_order run ts s"
  using deterministic sequential_reached by blast

lemma run_in_order_frame:
  assumes "\<forall>t \<in> set ts. h \<notin> wr t"
  shows "run_in_order run ts s h = s h"
  using assms by (induction ts arbitrary: s) (auto simp: frame)

text \<open>A handle that no task accesses can be set before or after the tasks.\<close>

lemma run_upd:
  assumes "h \<notin> rd t \<union> wr t"
  shows "run t (s(h := v)) = (run t s)(h := v)"
proof
  fix k
  have "\<forall>j \<in> rd t \<union> wr t. (s(h := v)) j = s j" using assms by auto
  note local [OF this, of k]
  moreover have "k \<noteq> h" if "k \<in> wr t" using that assms by auto
  ultimately show "run t (s(h := v)) k = ((run t s)(h := v)) k"
    by (cases "k \<in> wr t") (metis fun_upd_other, simp add: frame)
qed

lemma run_in_order_upd:
  assumes "\<forall>t \<in> set ts. h \<notin> rd t \<union> wr t"
  shows "run_in_order run ts (s(h := v)) = (run_in_order run ts s)(h := v)"
  using assms by (induction ts arbitrary: s) (simp_all add: run_upd)

end

end
