(* ===== verification/Starpu_Build_Graph.thy ===== *)
theory Starpu_Build_Graph
  imports Yosys_Json_Parser Wrapped_Codelets Dataflow_Tasks
begin

text \<open>
  The graph builder (src/src/starpu_build_graph.cpp): it sizes the vectors of
  ciphertexts, registers them with StarPU, and submits one task per gate of the
  netlist, each with the handles it writes and reads. The tasks are an
  interpretation of the dataflow interface, so any execution StarPU may choose
  computes the same ciphertexts. Shown here: for a combinational netlist whose
  gates are listed in topological order every completed execution leaves in the
  output vector encryptions of the bits that the circuit computes; and what the
  builder does with flip-flops, adders, gates out of order and outputs that are
  wired to inputs.
\<close>

section \<open>Handles and tasks\<close>

text \<open>The registered vectors, each handle with its position.\<close>

datatype handle = CipherIn nat | CipherOut nat | CipherDffQ nat | CipherDffD nat | CipherWire nat

text \<open>
  A search over a range that begins in one vector and ends in another, and
  dereferencing an iterator that was never set after a failed lookup.
\<close>

datatype graph_error = IteratorRangeError | BitParseError string

record 'a gate_task =
  task_codelet :: "'a starpu_codelet"
  task_out :: handle
  task_ins :: "handle list"
  task_prio :: nat

text \<open>The global vectors of ciphertexts.\<close>

record 'a tangor_globals =
  cipherin :: "'a list list"
  cipherout :: "'a list list"
  cipherdffq :: "'a list list"
  cipherdffd :: "'a list list"
  cipherwire :: "'a list list"

section \<open>Operations\<close>

text \<open>
  The call std::find(q.begin(), d.end(), id): defined only when neither vector
  has storage, and then it finds nothing.
\<close>

definition find_across :: "uint list \<Rightarrow> uint list \<Rightarrow> uint \<Rightarrow> graph_error + nat" where
  "find_across q d i = (if q = [] \<and> d = [] then Inr 0 else Inl IteratorRangeError)"

definition search_pointer :: "uint \<Rightarrow> ParsedBC \<Rightarrow> string \<Rightarrow> graph_error + handle" where
  "search_pointer i b bitname =
     (let outiterator = find_idx i (output_vector b);
          initerator = find_idx i (input_vector b);
          dffqiterator = find_idx i (DFF_Q_vector b);
          wireiterator = find_idx i (wire_vector b)
      in rbind (find_across (DFF_Q_vector b) (DFF_D_vector b) i) (\<lambda>dffditerator.
         if initerator \<noteq> length (input_vector b) then Inr (CipherIn initerator)
         else if dffditerator \<noteq> length (DFF_D_vector b) then Inr (CipherDffD dffditerator)
         else if dffqiterator \<noteq> length (DFF_Q_vector b) then Inr (CipherDffQ dffqiterator)
         else if wireiterator \<noteq> length (wire_vector b) then Inr (CipherWire wireiterator)
         else if outiterator \<noteq> length (output_vector b) then Inr (CipherOut outiterator)
         else Inl (BitParseError bitname)))"

definition in2out1gates :: "string list" where
  "in2out1gates = [''NAND'', ''NOR'', ''XNOR'', ''AND'', ''OR'', ''XOR'', ''ANDYN'', ''ORYN'']"

definition in3out1gates :: "bool \<Rightarrow> string list" where
  "in3out1gates m12 = (if m12 then [''MUX'', ''NMUX'', ''AOI3'', ''OAI3''] else [''MUX'', ''NMUX''])"

text \<open>The choice of the codelet for a two-input gate; None is the message branch.\<close>

definition in2out1_codelet :: "bool \<Rightarrow> 'w::len word \<Rightarrow> string \<Rightarrow> 'w word starpu_codelet option" where
  "in2out1_codelet cuf m name =
     (if name = ''NAND'' then Some (clHomNAND cuf m)
      else if name = ''NOR'' then Some (clHomNOR cuf m)
      else if name = ''XNOR'' then Some (clHomXNOR cuf m)
      else if name = ''AND'' then Some (clHomAND cuf m)
      else if name = ''OR'' then Some (clHomOR cuf m)
      else if name = ''XOR'' then Some (clHomXOR cuf m)
      else if name = ''ANDYN'' then Some (clHomANDYN cuf m)
      else if name = ''ORYN'' then Some (clHomORYN cuf m)
      else None)"

text \<open>
  One iteration of the submission loop, over the tasks submitted and the lines
  printed so far. USE_M12 and USE_CUFHEPP are the build options \<open>m12\<close> and
  \<open>cuf\<close>; starpu_task_insert appends a task.
\<close>

definition submit_gate ::
  "bool \<Rightarrow> bool \<Rightarrow> 'w::len word \<Rightarrow> ParsedBC \<Rightarrow> GateStruct \<Rightarrow>
   'w word gate_task list \<times> string list \<Rightarrow> graph_error + ('w word gate_task list \<times> string list)" where
  "submit_gate m12 cuf m b g s =
     (let (tasks, msgs) = s in
      if gs_name g = ''NOT'' then
        rbind (search_pointer (gs_out g ! 0) b ''output'') (\<lambda>outcipher.
        rbind (search_pointer (gs_in g ! 0) b ''in0'') (\<lambda>inacipher.
        Inr (tasks @ [\<lparr>task_codelet = clHomNOT cuf, task_out = outcipher,
                       task_ins = [inacipher], task_prio = 0\<rparr>], msgs)))
      else if gs_name g \<in> set in2out1gates then
        rbind (search_pointer (gs_out g ! 0) b ''output'') (\<lambda>outcipher.
        rbind (search_pointer (gs_in g ! 0) b ''in0'') (\<lambda>inacipher.
        rbind (search_pointer (gs_in g ! 1) b ''in1'') (\<lambda>inbcipher.
        (case in2out1_codelet cuf m (gs_name g) of
           Some cl \<Rightarrow> Inr (tasks @ [\<lparr>task_codelet = cl, task_out = outcipher,
                       task_ins = [inacipher, inbcipher], task_prio = 1\<rparr>], msgs)
         | None \<Rightarrow> Inr (tasks, msgs @ [''GATE PARSE ERROR'', gs_name g])))))
      else if gs_name g \<in> set (in3out1gates m12) then
        rbind (search_pointer (gs_out g ! 0) b ''output'') (\<lambda>outcipher.
        rbind (search_pointer (gs_in g ! 0) b ''in0'') (\<lambda>inacipher.
        rbind (search_pointer (gs_in g ! 1) b ''in1'') (\<lambda>inbcipher.
        rbind (search_pointer (gs_in g ! 2) b ''in2'') (\<lambda>inscipher.
        if gs_name g = ''MUX'' then
          Inr (tasks @ [\<lparr>task_codelet = clHomMUX cuf, task_out = outcipher,
                         task_ins = [inscipher, inbcipher, inacipher], task_prio = 0\<rparr>], msgs)
        else if gs_name g = ''NMUX'' then
          Inr (tasks @ [\<lparr>task_codelet = clHomNMUX cuf, task_out = outcipher,
                         task_ins = [inscipher, inbcipher, inacipher], task_prio = 0\<rparr>], msgs)
        else Inr (tasks, msgs)))))
      else Inr (tasks, msgs @ [''GATE PARSE ERROR!'']))"

text \<open>The resizes and the initialisation of the registers.\<close>

definition size_vectors ::
  "'w::len word tfhe_api \<Rightarrow> ParsedBC \<Rightarrow> 'w word tangor_globals \<Rightarrow> 'w word tangor_globals" where
  "size_vectors api b gl =
     (let zero = replicate (Suc (kn api)) 0 in
      \<lparr>cipherin = vec_resize (length (input_vector b)) zero (cipherin gl),
       cipherout = vec_resize (length (output_vector b)) zero (cipherout gl),
       cipherdffq = map (\<lambda>_. HomCONSTANTZERO api)
                      (vec_resize (length (DFF_Q_vector b)) zero (cipherdffq gl)),
       cipherdffd = vec_resize (length (DFF_D_vector b)) zero (cipherdffd gl),
       cipherwire = vec_resize (length (wire_vector b)) zero (cipherwire gl)\<rparr>)"

definition starpu_build_graph ::
  "bool \<Rightarrow> bool \<Rightarrow> 'w::len word tfhe_api \<Rightarrow> ParsedBC \<Rightarrow> 'w word tangor_globals \<Rightarrow>
   graph_error + ('w word tangor_globals \<times> 'w word gate_task list \<times> string list)" where
  "starpu_build_graph m12 cuf api b gl =
     rbind (rfold (submit_gate m12 cuf (mu api) b) (gate_vector b) ([], [])) (\<lambda>(tasks, msgs).
     Inr (size_vectors api b gl, tasks, msgs))"

text \<open>
  The data StarPU holds for the handles: the contents of the registered
  vectors when the graph has been built. Copying the outputs back to the host
  reads the output handles.
\<close>

definition registered :: "'a tangor_globals \<Rightarrow> handle \<Rightarrow> 'a list" where
  "registered gl h = (case h of
      CipherIn i \<Rightarrow> cipherin gl ! i
    | CipherOut i \<Rightarrow> cipherout gl ! i
    | CipherDffQ i \<Rightarrow> cipherdffq gl ! i
    | CipherDffD i \<Rightarrow> cipherdffd gl ! i
    | CipherWire i \<Rightarrow> cipherwire gl ! i)"

definition starpu_sync_outputs_to_host ::
  "(handle \<Rightarrow> 'a list) \<Rightarrow> 'a tangor_globals \<Rightarrow> 'a tangor_globals" where
  "starpu_sync_outputs_to_host store gl =
     gl\<lparr>cipherout := map (\<lambda>i. store (CipherOut i)) [0..<length (cipherout gl)]\<rparr>"

section \<open>Tasks as dataflow\<close>

text \<open>
  Submitted tasks are numbered. The scheduler places task \<open>k\<close> on the worker
  \<open>place k\<close>, and the FPGA is in state \<open>hs k\<close> when it starts.
\<close>

definition task_rd :: "nat \<times> 'a gate_task \<Rightarrow> handle set" where
  "task_rd t = set (task_ins (snd t))"

definition task_wr :: "nat \<times> 'a gate_task \<Rightarrow> handle set" where
  "task_wr t = {task_out (snd t)}"

definition run_task ::
  "'w::len word platform \<Rightarrow> (nat \<Rightarrow> 'w word hoge_state) \<Rightarrow> (nat \<Rightarrow> arch \<times> int) \<Rightarrow>
   nat \<times> 'w word gate_task \<Rightarrow> (handle \<Rightarrow> 'w tlwe) \<Rightarrow> handle \<Rightarrow> 'w tlwe" where
  "run_task p hs place t store =
     (case run_codelet p (place (fst t)) (task_codelet (snd t))
             (map store (task_out (snd t) # task_ins (snd t))) (hs (fst t)) of
        Inr (r # _, _) \<Rightarrow> store(task_out (snd t) := r)
      | _ \<Rightarrow> store)"

interpretation tangor: dataflow task_rd task_wr "run_task p hs place"
  for p :: "'w::len word platform" and hs place
proof
  show "run_task p hs place t s h = s h" if "h \<notin> task_wr t" 
    for h and t :: "nat \<times> 'w word gate_task" and s
    using that by (auto simp: run_task_def task_wr_def split: sum.split list.split)
next
  fix t :: "nat \<times> 'w word gate_task" and h and s s' :: "handle \<Rightarrow> 'w tlwe"
  assume eq: "\<forall>h \<in> task_rd t \<union> task_wr t. s h = s' h" and h: "h \<in> task_wr t"
  then have args: "map s (task_out (snd t) # task_ins (snd t)) = map s' (task_out (snd t) # task_ins (snd t))"
    by (simp add: task_rd_def task_wr_def)
  then show "run_task p hs place t s h = run_task p hs place t s' h"
    using eq h unfolding run_task_def args by (auto simp: task_wr_def split: sum.split list.split)
qed

section \<open>What a netlist means\<close>

text \<open>
  The Boolean function of a gate name on the inputs A, B and the third input,
  and the valuations of the bits that respect every gate.
\<close>

definition gate_fn :: "string \<Rightarrow> bool \<Rightarrow> bool \<Rightarrow> bool \<Rightarrow> bool" where
  "gate_fn nm a b c =
     (if nm = ''NOT'' then \<not> a
      else if nm = ''NAND'' then \<not> (a \<and> b)
      else if nm = ''NOR'' then \<not> (a \<or> b)
      else if nm = ''XNOR'' then a = b
      else if nm = ''AND'' then a \<and> b
      else if nm = ''OR'' then a \<or> b
      else if nm = ''XOR'' then a \<noteq> b
      else if nm = ''ANDYN'' then a \<and> \<not> b
      else if nm = ''ORYN'' then a \<or> \<not> b
      else if nm = ''MUX'' then (if c then b else a)
      else \<not> (if c then b else a))"

abbreviation gate_out :: "GateStruct \<Rightarrow> uint" where
  "gate_out g \<equiv> gs_out g ! 0"

definition gate_value :: "(uint \<Rightarrow> bool) \<Rightarrow> GateStruct \<Rightarrow> bool" where
  "gate_value v g = gate_fn (gs_name g) (v (gs_in g ! 0)) (v (gs_in g ! 1)) (v (gs_in g ! 2))"

definition solves :: "ParsedBC \<Rightarrow> (uint \<Rightarrow> bool) \<Rightarrow> bool" where
  "solves b v \<longleftrightarrow> (\<forall>g \<in> set (gate_vector b). v (gate_out g) = gate_value v g)"

text \<open>The inputs a gate uses, and the gates that have a codelet.\<close>

definition used_inputs :: "GateStruct \<Rightarrow> uint list" where
  "used_inputs g =
     (if gs_name g = ''NOT'' then [gs_in g ! 0]
      else if gs_name g \<in> set in2out1gates then [gs_in g ! 0, gs_in g ! 1]
      else [gs_in g ! 2, gs_in g ! 1, gs_in g ! 0])"

definition supported :: "GateStruct \<Rightarrow> bool" where
  "supported g \<longleftrightarrow> gs_name g \<in> set (''NOT'' # in2out1gates @ [''MUX'', ''NMUX''])"

text \<open>Every gate reads only inputs and outputs of earlier gates.\<close>

fun topological :: "uint set \<Rightarrow> GateStruct list \<Rightarrow> bool" where
  "topological known [] = True"
| "topological known (g # gs) =
     (set (used_inputs g) \<subseteq> known \<and> gate_out g \<notin> known \<and> topological (insert (gate_out g) known) gs)"

text \<open>
  The netlists the evaluator is made for: no flip-flop, only gates with a
  codelet, in topological order with one driver per bit, and every output port
  a distinct bit that a gate drives.
\<close>

definition combinational :: "ParsedBC \<Rightarrow> bool" where
  "combinational b \<longleftrightarrow>
     DFF_Q_vector b = [] \<and> DFF_D_vector b = [] \<and>
     (\<forall>g \<in> set (gate_vector b). supported g) \<and>
     topological (set (input_vector b)) (gate_vector b) \<and>
     distinct (output_vector b) \<and> set (output_vector b) \<inter> set (wire_vector b) = {} \<and>
     set (output_vector b) \<subseteq> gate_out ` set (gate_vector b)"

section \<open>Lookup of handles\<close>

definition known_bits :: "ParsedBC \<Rightarrow> uint set" where
  "known_bits b = set (input_vector b) \<union> set (wire_vector b) \<union> set (output_vector b)"

definition bit_handle :: "ParsedBC \<Rightarrow> uint \<Rightarrow> handle" where
  "bit_handle b i =
     (if i \<in> set (input_vector b) then CipherIn (find_idx i (input_vector b))
      else if i \<in> set (wire_vector b) then CipherWire (find_idx i (wire_vector b))
      else CipherOut (find_idx i (output_vector b)))"

lemma search_pointer_known:
  assumes "DFF_Q_vector b = []" and "DFF_D_vector b = []" and "i \<in> known_bits b"
  shows "search_pointer i b nm = Inr (bit_handle b i)"
  using assms
  by (auto simp: search_pointer_def find_across_def bit_handle_def known_bits_def Let_def
      find_idx_eq_length)

lemma bit_handle_inj: "inj_on (bit_handle b) (known_bits b)"
  by (auto simp: inj_on_def bit_handle_def known_bits_def split: if_split_asm
      dest: find_idx_inj)

lemma topological_outs:
  assumes "topological known gs"
  shows "distinct (map gate_out gs) \<and> gate_out ` set gs \<inter> known = {}"
  using assms
proof (induction known gs rule: topological.induct)
  case (2 known g gs)
  then have "distinct (map gate_out gs) \<and> gate_out ` set gs \<inter> insert (gate_out g) known = {}"
    by simp
  with "2.prems" show ?case by auto
qed simp

lemma topological_inputs:
  assumes "topological known gs" and "g \<in> set gs"
  shows "set (used_inputs g) \<subseteq> known \<union> gate_out ` set gs"
  using assms
proof (induction known gs rule: topological.induct)
  case (2 known h gs)
  then show ?case by (cases "g = h") auto
qed simp

section \<open>The submitted tasks\<close>

definition gate_codelet_of :: "bool \<Rightarrow> 'w::len word \<Rightarrow> string \<Rightarrow> 'w word starpu_codelet" where
  "gate_codelet_of cuf m nm =
     (if nm = ''NOT'' then clHomNOT cuf
      else if nm = ''MUX'' then clHomMUX cuf
      else if nm = ''NMUX'' then clHomNMUX cuf
      else the (in2out1_codelet cuf m nm))"

definition gate_task_of :: "bool \<Rightarrow> 'w::len word \<Rightarrow> ParsedBC \<Rightarrow> GateStruct \<Rightarrow> 'w word gate_task" where
  "gate_task_of cuf m b g =
     \<lparr>task_codelet = gate_codelet_of cuf m (gs_name g), task_out = bit_handle b (gate_out g),
      task_ins = map (bit_handle b) (used_inputs g),
      task_prio = (if gs_name g \<in> set in2out1gates then 1 else 0)\<rparr>"

lemma in2out1_codelet_rows:
  "\<forall>nm \<in> set in2out1gates. \<exists>cl. in2out1_codelet cuf m nm = Some cl \<and>
     (cl, \<lambda>a b. gate_fn nm a b c) \<in> set (two_input_codelets cuf m)"
  by (simp add: in2out1gates_def in2out1_codelet_def two_input_codelets_def gate_fn_def)

lemma in2out1_codelet_row:
  assumes "nm \<in> set in2out1gates"
  shows "\<exists>cl. in2out1_codelet cuf m nm = Some cl \<and>
           (cl, \<lambda>a b. gate_fn nm a b c) \<in> set (two_input_codelets cuf m)"
  by (rule bspec [OF in2out1_codelet_rows assms])

lemma two_input_codelets_where:
  "(cl, f) \<in> set (two_input_codelets cuf m) \<Longrightarrow> cl_where cl = TANGOR_CODELET_WHERE cuf"
  unfolding two_input_codelets_rows by (auto simp: gate_codelet_def)

lemma submit_gate_supported:
  assumes "supported g" and "DFF_Q_vector b = []" and "DFF_D_vector b = []"
    and "set (gate_out g # used_inputs g) \<subseteq> known_bits b"
  shows "submit_gate m12 cuf m b g (tasks, msgs) = Inr (tasks @ [gate_task_of cuf m b g], msgs)"
proof -
  note look = search_pointer_known [OF assms(2,3)]
  consider (not) "gs_name g = ''NOT''" | (two) "gs_name g \<in> set in2out1gates" "gs_name g \<noteq> ''NOT''"
    | (mux) "gs_name g = ''MUX''" | (nmux) "gs_name g = ''NMUX''"
    using assms(1) unfolding supported_def by (auto simp: in2out1gates_def)
  then show ?thesis
  proof cases
    case not
    then show ?thesis
      using assms(4) by (simp add: submit_gate_def gate_task_of_def gate_codelet_of_def
          used_inputs_def look in2out1gates_def)
  next
    case two
    obtain cl where cl: "in2out1_codelet cuf m (gs_name g) = Some cl"
      using in2out1_codelet_row [OF two(1)] by blast
    have "gs_name g \<noteq> ''MUX''" and "gs_name g \<noteq> ''NMUX''"
      using two(1) by (auto simp: in2out1gates_def)
    then show ?thesis
      using assms(4) two cl by (simp add: submit_gate_def gate_task_of_def gate_codelet_of_def
          used_inputs_def look)
  next
    case mux
    then show ?thesis
      using assms(4) by (simp add: submit_gate_def gate_task_of_def gate_codelet_of_def
          used_inputs_def look in2out1gates_def in3out1gates_def)
  next
    case nmux
    then show ?thesis
      using assms(4) by (simp add: submit_gate_def gate_task_of_def gate_codelet_of_def
          used_inputs_def look in2out1gates_def in3out1gates_def)
  qed
qed

lemma submit_all:
  assumes "\<forall>g \<in> set gs. supported g \<and> set (gate_out g # used_inputs g) \<subseteq> known_bits b"
    and "DFF_Q_vector b = []" and "DFF_D_vector b = []"
  shows "rfold (submit_gate m12 cuf m b) gs (tasks, msgs) =
           Inr (tasks @ map (gate_task_of cuf m b) gs, msgs)"
  using assms
proof (induction gs arbitrary: tasks)
  case (Cons g gs)
  then have "submit_gate m12 cuf m b g (tasks, msgs) = Inr (tasks @ [gate_task_of cuf m b g], msgs)"
    by (intro submit_gate_supported) auto
  with Cons show ?case by simp
qed simp

lemma combinational_known:
  assumes "netlist_inv b" and "combinational b" and "g \<in> set (gate_vector b)"
  shows "set (gate_out g # used_inputs g) \<subseteq> known_bits b"
proof -
  have outs: "gate_out ` set (gate_vector b) \<subseteq> known_bits b"
    using assms(1) by (auto simp: netlist_inv_def known_bits_def)
  have "set (used_inputs g) \<subseteq> set (input_vector b) \<union> gate_out ` set (gate_vector b)"
    using topological_inputs assms(2,3) by (auto simp: combinational_def)
  with outs assms(3) show ?thesis by (auto simp: known_bits_def)
qed

lemma build_supported:
  assumes "\<forall>g \<in> set (gate_vector b). supported g \<and> set (gate_out g # used_inputs g) \<subseteq> known_bits b"
    and "DFF_Q_vector b = []" and "DFF_D_vector b = []"
  shows "starpu_build_graph m12 cuf api b gl =
           Inr (size_vectors api b gl, map (gate_task_of cuf (mu api) b) (gate_vector b), [])"
  using submit_all [OF assms, of m12 cuf "mu api" "[]" "[]"] by (simp add: starpu_build_graph_def)

lemma build_combinational:
  assumes "netlist_inv b" and "combinational b"
  shows "starpu_build_graph m12 cuf api b gl =
           Inr (size_vectors api b gl, map (gate_task_of cuf (mu api) b) (gate_vector b), [])"
proof (rule build_supported)
  show "\<forall>g \<in> set (gate_vector b). supported g \<and> set (gate_out g # used_inputs g) \<subseteq> known_bits b"
    using combinational_known [OF assms] assms(2) unfolding combinational_def by blast
qed (use assms(2) in \<open>auto simp: combinational_def\<close>)

section \<open>Evaluation\<close>

text \<open>A placement the scheduler may choose, and the FPGA fault left out.\<close>

definition placed_ok :: "'a platform \<Rightarrow> bool \<Rightarrow> arch \<times> int \<Rightarrow> GateStruct \<Rightarrow> bool" where
  "placed_ok p cuf w g \<longleftrightarrow>
     fst w \<in> set (TANGOR_CODELET_WHERE cuf) \<and> (gs_name g = ''NMUX'' \<longrightarrow> \<not> on_fpga p w)"

lemma supported_cases:
  assumes "supported g"
  obtains (not) "gs_name g = ''NOT''" | (two) "gs_name g \<in> set in2out1gates" "gs_name g \<noteq> ''NOT''"
      "gs_name g \<noteq> ''MUX''" "gs_name g \<noteq> ''NMUX''"
    | (mux) "gs_name g = ''MUX''" "gs_name g \<notin> set in2out1gates"
    | (nmux) "gs_name g = ''NMUX''" "gs_name g \<notin> set in2out1gates"
proof -
  have "''NOT'' \<notin> set in2out1gates" "''MUX'' \<notin> set in2out1gates" "''NMUX'' \<notin> set in2out1gates"
    by (simp_all add: in2out1gates_def)
  with assms that show thesis by (auto simp: supported_def)
qed

lemma gate_run:
  assumes p: "platform_ok key B Bo M p" and s: "fpga_ready p hs" and sup: "supported g"
    and w: "placed_ok p cuf w g" and b0: "length b0 = Suc (kn (tfhe p))"
    and ins: "\<forall>i \<in> set (used_inputs g). cipher key B p (v i) (c i)"
  shows "writes_bit key B p (gate_value v g) (map c (used_inputs g))
     (run_codelet p w (gate_codelet_of cuf (mu (tfhe p)) (gs_name g)) (b0 # map c (used_inputs g)) hs)"
proof -
  have cuf: "fst w \<in> set (TANGOR_CODELET_WHERE cuf)" using w by (simp add: placed_ok_def)
  from sup show ?thesis
  proof (cases rule: supported_cases)
    case not
    then show ?thesis
      using not_codelet_correct [OF p s cuf b0] ins
      by (simp add: used_inputs_def gate_value_def gate_fn_def gate_codelet_of_def)
  next
    case two
    obtain cl where cl: "in2out1_codelet cuf (mu (tfhe p)) (gs_name g) = Some cl"
      and row: "(cl, \<lambda>a b. gate_fn (gs_name g) a b (v (gs_in g ! 2))) \<in> set (two_input_codelets cuf (mu (tfhe p)))"
      using in2out1_codelet_row [OF two(1)] by blast
    have "cipher key B p (v (gs_in g ! 0)) (c (gs_in g ! 0))"
      and "cipher key B p (v (gs_in g ! 1)) (c (gs_in g ! 1))"
      using ins two by (simp_all add: used_inputs_def)
    from two_input_codelet_correct [OF p s row _ b0 this, of w] show ?thesis
      using two cl cuf two_input_codelets_where [OF row]
      by (simp add: used_inputs_def gate_value_def gate_codelet_of_def)
  next
    case mux
    then show ?thesis
      using mux_codelet_correct [OF p s cuf b0] ins
      by (simp add: used_inputs_def gate_value_def gate_fn_def gate_codelet_of_def)
  next
    case nmux
    have "\<not> on_fpga p w" using w nmux by (simp add: placed_ok_def)
    from nmux_codelet_correct [OF p s cuf this b0] nmux show ?thesis
      using ins by (simp add: used_inputs_def gate_value_def gate_fn_def gate_codelet_of_def)
  qed
qed

lemma run_task_gate:
  assumes "platform_ok key B Bo M p" and "fpga_ready p (hs k)" and "supported g"
    and "placed_ok p cuf (place k) g" and "length (store (bit_handle b (gate_out g))) = Suc (kn (tfhe p))"
    and "\<forall>i \<in> set (used_inputs g). cipher key B p (v i) (store (bit_handle b i))"
  shows "\<exists>r. run_task p hs place (k, gate_task_of cuf (mu (tfhe p)) b g) store =
               store(bit_handle b (gate_out g) := r) \<and> cipher key B p (gate_value v g) r"
  using gate_run [OF assms(1-5), of v "\<lambda>i. store (bit_handle b i)"] assms(6)
  by (auto simp: run_task_def gate_task_of_def writes_bit_def comp_def)

lemma run_gates:
  assumes p: "platform_ok key B Bo M p" and hs: "\<And>k. fpga_ready p (hs k)"
    and "topological known gs" and "\<forall>g \<in> set gs. supported g"
    and "\<forall>j < length gs. placed_ok p cuf (place (k + j)) (gs ! j)"
    and "known \<union> gate_out ` set gs \<subseteq> known_bits b"
    and "\<forall>i \<in> known_bits b. length (store (bit_handle b i)) = Suc (kn (tfhe p))"
    and "\<forall>i \<in> known. cipher key B p (v i) (store (bit_handle b i))"
    and "\<forall>g \<in> set gs. v (gate_out g) = gate_value v g"
    and "i \<in> known \<union> gate_out ` set gs"
  shows "cipher key B p (v i)
     (run_in_order (run_task p hs place) (enumerate k (map (gate_task_of cuf (mu (tfhe p)) b) gs)) store
        (bit_handle b i))"
  using assms(3-)
proof (induction known gs arbitrary: k store rule: topological.induct)
  case (1 known)
  then show ?case by simp
next
  case (2 known g gs)
  have known: "insert (gate_out g) known \<union> gate_out ` set gs \<subseteq> known_bits b"
    using "2.prems"(4) by auto
  then have out: "gate_out g \<in> known_bits b" by blast
  have ins: "set (used_inputs g) \<subseteq> known" and fresh: "gate_out g \<notin> known"
    using "2.prems"(1) by auto
  have "placed_ok p cuf (place k) g"
    using "2.prems"(3) by (metis add_0_right length_Cons nth_Cons_0 zero_less_Suc)
  moreover have "\<forall>i \<in> set (used_inputs g). cipher key B p (v i) (store (bit_handle b i))"
    using "2.prems"(6) ins by blast
  ultimately obtain r where r: "run_task p hs place (k, gate_task_of cuf (mu (tfhe p)) b g) store =
      store(bit_handle b (gate_out g) := r)" and bit: "cipher key B p (gate_value v g) r"
    using run_task_gate [OF p, of hs k g cuf place store b v] hs [of k] "2.prems"(2,5) out by auto
  let ?store = "store(bit_handle b (gate_out g) := r)"
  have other: "bit_handle b i = bit_handle b (gate_out g) \<longleftrightarrow> i = gate_out g" if "i \<in> known_bits b" for i
    using that out bit_handle_inj [of b] by (auto simp: inj_on_def)
  have "cipher key B p (v i) (run_in_order (run_task p hs place)
      (enumerate (Suc k) (map (gate_task_of cuf (mu (tfhe p)) b) gs)) ?store (bit_handle b i))"
  proof (rule "2.IH")
    show "\<forall>j<length gs. placed_ok p cuf (place (Suc k + j)) (gs ! j)"
      using "2.prems"(3) by (metis Suc_less_eq add_Suc_shift length_Cons nth_Cons_Suc)
    show "\<forall>i\<in>known_bits b. length (?store (bit_handle b i)) = Suc (kn (tfhe p))"
      using "2.prems"(5) encodes_length [OF bit] by simp
    show "\<forall>i\<in>insert (gate_out g) known. cipher key B p (v i) (?store (bit_handle b i))"
      using "2.prems"(6,7) bit fresh known other by auto
  qed (use "2.prems" known in auto)
  then show ?case by (simp add: r)
qed

text \<open>The globals when the input ciphertexts have been loaded.\<close>

definition loaded :: "'a list list \<Rightarrow> 'a tangor_globals" where
  "loaded cin = \<lparr>cipherin = cin, cipherout = [], cipherdffq = [], cipherdffd = [], cipherwire = []\<rparr>"

lemma registered_length:
  assumes "list_all (\<lambda>c. length c = Suc (kn api)) cin" and "length cin = length (input_vector b)"
    and "i \<in> known_bits b"
  shows "length (registered (size_vectors api b (loaded cin)) (bit_handle b i)) = Suc (kn api)"
  using assms find_idx_less_iff [of i]
  by (auto simp: registered_def size_vectors_def loaded_def bit_handle_def known_bits_def Let_def
      vec_resize_def list_all_length)

lemma registered_input:
  assumes "length cin = length (input_vector b)" and "i \<in> set (input_vector b)"
  shows "registered (size_vectors api b (loaded cin)) (bit_handle b i) = cin ! find_idx i (input_vector b)"
  using assms
  by (auto simp: registered_def size_vectors_def loaded_def bit_handle_def Let_def vec_resize_def)

text \<open>
  The reference: evaluate the gates one after the other on Booleans. In a
  combinational netlist the result respects every gate.
\<close>

definition eval_gates :: "GateStruct list \<Rightarrow> (uint \<Rightarrow> bool) \<Rightarrow> uint \<Rightarrow> bool" where
  "eval_gates gs v = fold (\<lambda>g v. v(gate_out g := gate_value v g)) gs v"

definition eval_netlist :: "ParsedBC \<Rightarrow> (uint \<Rightarrow> bool) \<Rightarrow> uint \<Rightarrow> bool" where
  "eval_netlist b = eval_gates (gate_vector b)"

lemma gate_fn_two_inputs:
  assumes "nm \<in> set in2out1gates"
  shows "gate_fn nm a b c = gate_fn nm a b c'"
proof -
  have "\<forall>nm \<in> set in2out1gates. gate_fn nm a b c = gate_fn nm a b c'"
    by (simp add: in2out1gates_def gate_fn_def)
  with assms show ?thesis by blast
qed

lemma gate_value_cong:
  assumes "\<forall>i \<in> set (used_inputs g). v i = v' i" and "supported g"
  shows "gate_value v g = gate_value v' g"
  using assms(2)
proof (cases rule: supported_cases)
  case two
  with assms(1) have "v (gs_in g ! 0) = v' (gs_in g ! 0)" and "v (gs_in g ! 1) = v' (gs_in g ! 1)"
    by (simp_all add: used_inputs_def)
  then show ?thesis
    unfolding gate_value_def by (simp only: gate_fn_two_inputs [OF two(1), of _ _ "v (gs_in g ! 2)"])
qed (use assms(1) in \<open>simp_all add: used_inputs_def gate_value_def gate_fn_def\<close>)

lemma eval_gates_solves:
  assumes "topological known gs" and "\<forall>g \<in> set gs. supported g"
  shows "(\<forall>i \<in> known. eval_gates gs v i = v i) \<and>
         (\<forall>g \<in> set gs. eval_gates gs v (gate_out g) = gate_value (eval_gates gs v) g)"
  using assms
proof (induction known gs arbitrary: v rule: topological.induct)
  case (1 known)
  then show ?case by (simp add: eval_gates_def)
next
  case (2 known g gs)
  define u where "u = v(gate_out g := gate_value v g)"
  have step: "eval_gates (g # gs) v = eval_gates gs u" by (simp add: eval_gates_def u_def)
  have u: "u (gate_out g) = gate_value v g" "\<forall>i \<in> known. u i = v i"
    using "2.prems"(1) by (auto simp: u_def)
  have keep: "\<forall>i \<in> insert (gate_out g) known. eval_gates gs u i = u i"
    and rest: "\<forall>h \<in> set gs. eval_gates gs u (gate_out h) = gate_value (eval_gates gs u) h"
    using "2.IH" [of u] "2.prems" by auto
  have "gate_value (eval_gates gs u) g = gate_value v g"
    using "2.prems" keep u by (intro gate_value_cong) auto
  with keep rest u show ?case unfolding step by simp
qed

lemma evaluate:
  assumes inv: "netlist_inv b" and comb: "combinational b" and p: "platform_ok key B Bo M p"
    and hs: "\<And>k. fpga_ready p (hs k)"
    and place: "\<forall>k < length (gate_vector b). placed_ok p cuf (place k) (gate_vector b ! k)"
    and cin: "list_all2 (\<lambda>i c. cipher key B p (x i) c) (input_vector b) cin"
    and i: "i < length (output_vector b)"
  shows "cipher key B p (eval_netlist b x (output_vector b ! i))
    (run_in_order (run_task p hs place)
       (enumerate 0 (map (gate_task_of cuf (mu (tfhe p)) b) (gate_vector b)))
       (registered (size_vectors (tfhe p) b (loaded cin))) (CipherOut i))"
proof -
  let ?out = "output_vector b ! i" and ?v = "eval_netlist b x"
  have top: "topological (set (input_vector b)) (gate_vector b)"
    and sup: "\<forall>g \<in> set (gate_vector b). supported g"
    and dist: "distinct (output_vector b)" "set (output_vector b) \<inter> set (wire_vector b) = {}"
    and driven: "set (output_vector b) \<subseteq> gate_out ` set (gate_vector b)"
    using comb by (auto simp: combinational_def)
  have len: "length cin = length (input_vector b)"
    and clen: "list_all (\<lambda>c. length c = Suc (kn (tfhe p))) cin"
    using cin by (auto simp: list_all2_conv_all_nth list_all_length encodes_def)
  have known: "set (input_vector b) \<union> gate_out ` set (gate_vector b) \<subseteq> known_bits b"
    using combinational_known [OF inv comb] by (auto simp: known_bits_def)
  have ev: "\<forall>i \<in> set (input_vector b). ?v i = x i"
    "\<forall>g \<in> set (gate_vector b). ?v (gate_out g) = gate_value ?v g"
    using eval_gates_solves [OF top sup] unfolding eval_netlist_def by auto
  have ins: "\<forall>j \<in> set (input_vector b).
      cipher key B p (?v j) (registered (size_vectors (tfhe p) b (loaded cin)) (bit_handle b j))"
  proof
    fix j
    assume j: "j \<in> set (input_vector b)"
    then have "find_idx j (input_vector b) < length (input_vector b)" and
      "input_vector b ! find_idx j (input_vector b) = j"
      by (simp_all add: find_idx_less_iff nth_find_idx)
    with list_all2_nthD [OF cin] have "cipher key B p (x j) (cin ! find_idx j (input_vector b))"
      by fastforce
    with ev(1) j show "cipher key B p (?v j)
        (registered (size_vectors (tfhe p) b (loaded cin)) (bit_handle b j))"
      by (simp add: registered_input [OF len j])
  qed
  have mem: "?out \<in> set (output_vector b)" using i by simp
  then have "?out \<notin> set (input_vector b)" and "?out \<notin> set (wire_vector b)"
    using topological_outs [OF top] driven dist(2) by auto
  then have "bit_handle b ?out = CipherOut i"
    using dist(1) i by (simp add: bit_handle_def find_idx_nth)
  moreover have "?out \<in> set (input_vector b) \<union> gate_out ` set (gate_vector b)"
    using mem driven by blast
  ultimately show ?thesis
    using run_gates [OF p hs top sup _ known _ ins ev(2), of cuf place 0 ?out] place
      registered_length [OF clen len] by simp
qed

text \<open>Outside every handle a task can write, a run leaves the data as it was.\<close>

lemma search_pointer_out:
  assumes "search_pointer i b nm = Inr (CipherOut k)"
  shows "k = find_idx i (output_vector b) \<and> k < length (output_vector b) \<and>
         i \<notin> set (input_vector b) \<and> i \<notin> set (wire_vector b)"
  using assms find_idx_le [of i "output_vector b"]
  by (auto simp: search_pointer_def find_across_def Let_def find_idx_eq_length find_idx_less_iff
      split: if_split_asm)

lemma submit_gate_tasks:
  assumes "submit_gate m12 cuf m b g (tasks, msgs) = Inr (tasks', msgs')"
  shows "tasks' = tasks \<or> (\<exists>t nm. tasks' = tasks @ [t] \<and>
           search_pointer (gate_out g) b nm = Inr (task_out t))"
proof -
  consider "gs_name g = ''NOT''" | "gs_name g \<noteq> ''NOT''" "gs_name g \<in> set in2out1gates"
    | "gs_name g \<noteq> ''NOT''" "gs_name g \<notin> set in2out1gates" "gs_name g \<in> set (in3out1gates m12)"
    | "gs_name g \<noteq> ''NOT''" "gs_name g \<notin> set in2out1gates" "gs_name g \<notin> set (in3out1gates m12)"
    by blast
  then show ?thesis
  proof cases
    case 3
    with assms show ?thesis
      unfolding submit_gate_def by (simp add: rbind_eq_Inr split: if_split_asm; fastforce)
  qed (use assms in \<open>auto simp: submit_gate_def rbind_eq_Inr split: option.split_asm\<close>)
qed

lemma submit_loop_outs:
  assumes "rfold (submit_gate m12 cuf m b) gs (tasks, msgs) = Inr (tasks', msgs')"
    and "t \<in> set tasks'" and "t \<notin> set tasks"
  shows "\<exists>g \<in> set gs. \<exists>nm. search_pointer (gate_out g) b nm = Inr (task_out t)"
  using assms
proof (induction gs arbitrary: tasks msgs)
  case (Cons g gs)
  from Cons.prems(1) obtain ts ms where
    step: "submit_gate m12 cuf m b g (tasks, msgs) = Inr (ts, ms)" and
    rest: "rfold (submit_gate m12 cuf m b) gs (ts, ms) = Inr (tasks', msgs')"
    by (auto simp: rbind_eq_Inr)
  show ?case
  proof (cases "t \<in> set ts")
    case True
    then show ?thesis using submit_gate_tasks [OF step] Cons.prems(3) by auto
  next
    case False
    then show ?thesis using Cons.IH [OF rest Cons.prems(2)] by auto
  qed
qed auto

lemma build_graph_loop:
  assumes "starpu_build_graph m12 cuf api b gl = Inr (gl', tasks, msgs)"
  shows "rfold (submit_gate m12 cuf (mu api) b) (gate_vector b) ([], []) = Inr (tasks, msgs)"
    and "gl' = size_vectors api b gl"
  using assms by (auto simp: starpu_build_graph_def rbind_eq_Inr)

lemma build_task_out:
  assumes "starpu_build_graph m12 cuf api b gl = Inr (gl', tasks, msgs)"
    and "t \<in> set tasks" and "task_out t = CipherOut k"
  shows "k = find_idx (output_vector b ! k) (output_vector b) \<and>
         output_vector b ! k \<notin> set (input_vector b) \<union> set (wire_vector b)"
proof -
  obtain g nm where "search_pointer (gate_out g) b nm = Inr (CipherOut k)"
    using submit_loop_outs [OF build_graph_loop(1) [OF assms(1)] assms(2)] assms(3) by auto
  from search_pointer_out [OF this] show ?thesis
    by (metis Un_iff find_idx_less_iff nth_find_idx)
qed

section \<open>Properties\<close>


lemma and_netlist_combinational: "combinational and_netlist"
  by (simp add: combinational_def and_netlist_def supported_def in2out1gates_def used_inputs_def)



lemma and_netlist_built:
  "\<exists>gl tasks. starpu_build_graph False False (tfhe (sample_platform None)) and_netlist
     (loaded [exact_sample True, exact_sample True]) = Inr (gl, tasks, [])"
  using build_combinational [OF parse_netlist_inv [OF and_document_parsed] and_netlist_combinational]
  by blast


text \<open>C38. A netlist with a flip-flop and a gate is outside what the builder handles: the search for
  the handle of the first gate's output walks from the Q vector to the end of the D vector, two
  different vectors, so building the graph has no defined result.\<close>

theorem flip_flops_have_no_graph:
  assumes "DFF_Q_vector b \<noteq> [] \<or> DFF_D_vector b \<noteq> []" and "gate_vector b = g # gs"
    and "supported g"
  shows "starpu_build_graph m12 cuf api b gl = Inl IteratorRangeError"
proof -
  have look: "search_pointer i b nm = Inl IteratorRangeError" for i nm
    using assms(1) by (auto simp: search_pointer_def find_across_def Let_def)
  from assms(3) have "submit_gate m12 cuf (mu api) b g ([], []) = Inl IteratorRangeError"
  proof (cases rule: supported_cases)
    case two
    then show ?thesis by (simp add: submit_gate_def look)
  qed (simp_all add: submit_gate_def look in3out1gates_def)
  then show ?thesis by (simp add: starpu_build_graph_def assms(2))
qed

definition register_netlist :: ParsedBC where
  "register_netlist = and_netlist\<lparr>DFF_Q_vector := [7], DFF_D_vector := [4]\<rparr>"

theorem flip_flops_have_no_graph_witness:
  "starpu_build_graph False False (tfhe (sample_platform None)) register_netlist (loaded []) =
     Inl IteratorRangeError"
  by (rule flip_flops_have_no_graph [of _ "gate ''NAND'' [2, 3, 0] [4, 0, 0]"
        "[gate ''NOT'' [4, 0, 0] [5, 0, 0]]"])
    (simp_all add: register_netlist_def and_netlist_def supported_def in2out1gates_def)

text \<open>Gates without a codelet produce no task: adders (and any unknown cell) are reported with a
  message and skipped, and the three-input gates AOI3 and OAI3 of the M12 build are skipped in
  silence when their bits are known.\<close>

lemma unsupported_gates_are_skipped:
  assumes "\<not> supported g" and "DFF_Q_vector b = []" and "DFF_D_vector b = []"
    and "{gs_out g ! 0, gs_in g ! 0, gs_in g ! 1, gs_in g ! 2} \<subseteq> known_bits b"
  shows "submit_gate m12 cuf m b g (tasks, msgs) =
     Inr (tasks, if m12 \<and> gs_name g \<in> {''AOI3'', ''OAI3''} then msgs else msgs @ [''GATE PARSE ERROR!''])"
proof -
  have names: "gs_name g \<noteq> ''NOT''" "gs_name g \<notin> set in2out1gates" "gs_name g \<noteq> ''MUX''"
    "gs_name g \<noteq> ''NMUX''"
    using assms(1) by (auto simp: supported_def)
  have "gs_name g \<in> set (in3out1gates m12) \<longleftrightarrow> m12 \<and> gs_name g \<in> {''AOI3'', ''OAI3''}"
    using names(3,4) unfolding in3out1gates_def by (cases m12) simp_all
  then show ?thesis
    using names assms(4) search_pointer_known [OF assms(2,3)]
    by (simp add: submit_gate_def)
qed

lemma unsupported_gates_are_skipped_witness:
  "submit_gate False False (2 ^ 29 :: 32 word) and_netlist (gate ''fa'' [2, 3, 4] [5, 4, 0]) ([], []) =
     Inr ([], [''GATE PARSE ERROR!''])"
  using unsupported_gates_are_skipped [of "gate ''fa'' [2, 3, 4] [5, 4, 0]" and_netlist False False
      "2 ^ 29 :: 32 word" "[]" "[]"]
  by (simp add: supported_def in2out1gates_def and_netlist_def known_bits_def)

text \<open>C39. An output port that is wired straight to an input port is never written: whatever the
  netlist and whatever StarPU does, its ciphertext is the zero vector the builder created. The same
  holds for the second of two output ports on one bit.\<close>

theorem passthrough_outputs_stay_zero:
  assumes "starpu_build_graph m12 cuf api b (loaded cin) = Inr (gl, tasks, msgs)"
    and "i < length (output_vector b)"
    and "output_vector b ! i \<in> set (input_vector b) \<or> (\<exists>j < i. output_vector b ! j = output_vector b ! i)"
    and "starpu_run task_rd task_wr (run_task p hs place)
           (submitted (enumerate 0 tasks), registered gl) ([], store)"
  shows "cipherout (starpu_sync_outputs_to_host store gl) ! i = replicate (Suc (kn api)) 0"
proof -
  have gl: "gl = size_vectors api b (loaded cin)" by (rule build_graph_loop(2) [OF assms(1)])
  have "task_out t \<noteq> CipherOut i" if "t \<in> set tasks" for t
  proof
    assume "task_out t = CipherOut i"
    from build_task_out [OF assms(1) that this] assms(3) show False
      using find_idx_first [of _ "output_vector b ! i" "output_vector b"] by auto
  qed
  moreover have "snd t \<in> set tasks" if "t \<in> set (enumerate 0 tasks)" for t
    using that by (metis enumerate_eq_zip prod.collapse set_zip_rightD)
  ultimately have "\<forall>t \<in> set (enumerate 0 tasks). CipherOut i \<notin> task_wr t"
    by (metis singletonD task_wr_def)
  then have "store (CipherOut i) = registered gl (CipherOut i)"
    using tangor.deterministic [OF assms(4)] tangor.run_in_order_frame by metis
  then show ?thesis
    using assms(2) unfolding gl
    by (simp add: starpu_sync_outputs_to_host_def registered_def size_vectors_def loaded_def Let_def
        nth_vec_resize)
qed

definition pass_netlist :: ParsedBC where
  "pass_netlist = and_netlist\<lparr>output_vector := [2, 5]\<rparr>"

lemma pass_netlist_built:
  "starpu_build_graph False False api pass_netlist gl =
     Inr (size_vectors api pass_netlist gl,
       map (gate_task_of False (mu api) pass_netlist) (gate_vector pass_netlist), [])"
  by (rule build_supported)
    (simp_all add: pass_netlist_def and_netlist_def supported_def in2out1gates_def used_inputs_def
        known_bits_def)

theorem passthrough_outputs_stay_zero_witness:
  "\<exists>gl tasks store.
     starpu_build_graph False False (tfhe (sample_platform None)) pass_netlist
       (loaded [exact_sample True, exact_sample True]) = Inr (gl, tasks, []) \<and>
     cipherout (starpu_sync_outputs_to_host store gl) ! 0 = [0]"
proof -
  let ?api = "tfhe (sample_platform None)" and ?gl = "loaded [exact_sample True, exact_sample True]"
  let ?tasks = "map (gate_task_of False (mu ?api) pass_netlist) (gate_vector pass_netlist)"
  note built = pass_netlist_built [of ?api ?gl]
  obtain store where run: "starpu_run task_rd task_wr
      (run_task (sample_platform None) (\<lambda>_. sample_hoge_state) (\<lambda>_. (STARPU_CPU, 1)))
      (submitted (enumerate 0 ?tasks), registered (size_vectors ?api pass_netlist ?gl)) ([], store)"
    using starpu_run_completes by blast
  have "0 < length (output_vector pass_netlist)"
    and "output_vector pass_netlist ! 0 \<in> set (input_vector pass_netlist)"
    by (simp_all add: pass_netlist_def and_netlist_def)
  then have "cipherout (starpu_sync_outputs_to_host store (size_vectors ?api pass_netlist ?gl)) ! 0 = [0]"
    using passthrough_outputs_stay_zero [OF built _ _ run, of 0] by simp
  with built show ?thesis by blast
qed

definition swapped_document :: json where
  "swapped_document = JObj [(''modules'', JArr [sample_module
     [sample_port ''input'' [3, 2], sample_port ''output'' [5]]
     [sample_cell ''$_NOT_'' [(''A'', 4), (''Y'', 5)],
      sample_cell ''$_NAND_'' [(''A'', 2), (''B'', 3), (''Y'', 4)]]])]"

definition swapped_netlist :: ParsedBC where
  "swapped_netlist =
     \<lparr>input_vector = [2, 3], output_vector = [5], DFF_Q_vector = [], DFF_D_vector = [],
      wire_vector = [4],
      gate_vector = [gate ''NOT'' [4, 0, 0] [5, 0, 0], gate ''NAND'' [2, 3, 0] [4, 0, 0]],
      direct_port_pair_vector = [],
      dependency_vector = [0, 0, 0, 0, 2, 1]\<rparr>"

lemma swapped_document_parsed:
  "parse_netlist False (sample_api swapped_document) ''{}'' = Inr swapped_netlist"
  by code_simp

lemma swapped_netlist_built:
  "starpu_build_graph False False api swapped_netlist gl =
     Inr (size_vectors api swapped_netlist gl,
       map (gate_task_of False (mu api) swapped_netlist) (gate_vector swapped_netlist), [])"
  by (rule build_supported)
    (simp_all add: swapped_netlist_def supported_def in2out1gates_def used_inputs_def known_bits_def)

text \<open>The inverter runs first, on the zero vector that the wire holds.\<close>

lemma swapped_tasks:
  "gate_task_of False m swapped_netlist (gate ''NOT'' [4, 0, 0] [5, 0, 0]) =
     \<lparr>task_codelet = clHomNOT False, task_out = CipherOut 0, task_ins = [CipherWire 0], task_prio = 0\<rparr>"
  "task_out (gate_task_of False m swapped_netlist (gate ''NAND'' [2, 3, 0] [4, 0, 0])) = CipherWire 0"
  by (simp_all add: gate_task_of_def gate_codelet_of_def in2out1gates_def used_inputs_def
      bit_handle_def swapped_netlist_def)

lemma swapped_first_task:
  assumes "store (CipherWire 0) = [0]" and "store (CipherOut 0) = [0]"
  shows "run_task (sample_platform None) hs (\<lambda>_. (STARPU_CPU, 1))
      (k, gate_task_of False m swapped_netlist (gate ''NOT'' [4, 0, 0] [5, 0, 0])) store =
      store(CipherOut 0 := exact_sample True)"
  using assms
  by (simp add: swapped_tasks run_task_def run_codelet_def clHomNOT_def run_cpu_def HomNOTWrap_def
      sample_platform_def read_words_def copy_words_def exact_bit_def exact_sample_def)

lemma swapped_result:
  assumes "store (CipherWire 0) = [0]" and "store (CipherOut 0) = [0]"
  shows "run_in_order (run_task (sample_platform None) hs (\<lambda>_. (STARPU_CPU, 1)))
      (enumerate 0 (map (gate_task_of False m swapped_netlist) (gate_vector swapped_netlist))) store
      (CipherOut 0) = exact_sample True"
proof -
  have gates: "gate_vector swapped_netlist =
      [gate ''NOT'' [4, 0, 0] [5, 0, 0], gate ''NAND'' [2, 3, 0] [4, 0, 0]]"
    by (simp add: swapped_netlist_def)
  have "CipherOut 0 \<notin> task_wr (Suc 0, gate_task_of False m swapped_netlist (gate ''NAND'' [2, 3, 0] [4, 0, 0]))"
    by (simp add: task_wr_def swapped_tasks)
  note frame = tangor.frame [OF this]
  show ?thesis
    unfolding gates by (simp add: swapped_first_task [OF assms] frame)
qed


end
