(* ===== verification/Tangor_Main.thy ===== *)
theory Tangor_Main
  imports Starpu_Build_Graph
begin

text \<open>
  The program (src/src/tangor.cpp): main reads the evaluation key, the input
  ciphertexts and the netlist, starts StarPU and the accelerators, builds the
  graph, waits for it, and writes the output ciphertexts. Files, the StarPU
  runtime and the accelerators are parameters; the effects are recorded in
  order. Shown here: end to end, the file written holds encryptions of the
  circuit's outputs; every failing run returns 1 or stops without writing a
  result; and every started runtime is shut down in the right order.
\<close>

section \<open>Environment and effects\<close>

text \<open>The build options USE_M12, USE_CUFHEPP and USE_HOGE.\<close>

record tangor_build =
  use_m12 :: bool
  use_cufhepp :: bool
  use_hoge :: bool

text \<open>
  What main finds when it runs: whether eval.key and cloud.data can be
  deserialised, the text of circuit.json if it can be opened, the status of
  starpu_init, the CUDA workers and devices, the first argument of the program,
  the OpenCL platforms and devices, whether
  TANGOR_WRITE_STARPU_BOUND_LP is set and minimum_runtime.lp can be opened.
\<close>

record 'a main_env =
  eval_key_ok :: bool
  cloud_data :: "'a list list option"
  circuit_json :: "string option"
  starpu_init_status :: int
  cuda_worker_count :: nat
  cuda_device_count :: "bool \<times> int"
  mem_topology :: uint
  argv1 :: "string option"
  fpga_devices :: hoge_host
  fpga_setup_ok :: bool
  write_bound_lp :: bool
  lp_file_ok :: bool

text \<open>The effects of main on the outside, in the order in which they happen.\<close>

datatype 'a main_event = StarpuInit | CufheCall cufhe_call | HogeInit nat | BoundStart
  | TasksSubmitted nat | TasksDone | BoundStop | ResultWritten "'a list list" | BoundPrinted
  | StarpuShutdown | RuntimeLogged string

text \<open>
  How main ends: with an exit code, with an uncaught exception of the parser or
  of the deserialisation, in the FPGA set-up (an exit, or the null argv[1] as a string), or with undefined
  behaviour while it builds the graph.
\<close>

datatype main_end = Returned int | InputException | ParserException parser_error
  | FpgaExit codelet_error | GraphUndefined graph_error

section \<open>Operations\<close>

text \<open>After starpu_init: the accelerators and the bound computation.\<close>

definition start_backends ::
  "tangor_build \<Rightarrow> 'a main_env \<Rightarrow> bool \<times> cufhe_call list \<Rightarrow>
   codelet_error + ((bool \<times> cufhe_call list) \<times> 'a main_event list)" where
  "start_backends bld env cuf0 =
     (let cuf1 = (if use_cufhepp bld
                  then snd (CufheppInitialize (cuda_worker_count env) (cuda_device_count env) cuf0)
                  else cuf0);
          cufs = map CufheCall (drop (length (snd cuf0)) (snd cuf1));
          bound = (if write_bound_lp env then [BoundStart] else [])
      in if use_hoge bld
         then (case argv1 env of
             None \<Rightarrow> Inl NullArgument
           | Some binaryFile \<Rightarrow>
               rbind (HOGEinit (mem_topology env) (fpga_devices env) binaryFile (fpga_setup_ok env)) (\<lambda>h.
               Inr (cuf1, cufs @ [HogeInit (hs_device h)] @ bound)))
         else Inr (cuf1, cufs @ bound))"

text \<open>
  Building the graph, waiting for all tasks and writing the result; \<open>sched\<close>
  is the data that StarPU ends with for the tasks and the data it is given.
\<close>

definition evaluate_graph ::
  "tangor_build \<Rightarrow> 'w::len word tfhe_api \<Rightarrow> 'w word main_env \<Rightarrow>
   ('w word gate_task list \<Rightarrow> (handle \<Rightarrow> 'w tlwe) \<Rightarrow> handle \<Rightarrow> 'w tlwe) \<Rightarrow>
   ParsedBC \<Rightarrow> 'w tlwe list \<Rightarrow> graph_error + 'w word main_event list" where
  "evaluate_graph bld api env sched b cin =
     rbind (starpu_build_graph (use_m12 bld) (use_cufhepp bld) api b (loaded cin)) (\<lambda>(gl, tasks, msgs).
     let store = sched tasks (registered gl);
         gl' = starpu_sync_outputs_to_host store gl
     in Inr ([TasksSubmitted (length tasks), TasksDone] @
             (if write_bound_lp env then [BoundStop] else []) @
             [ResultWritten (cipherout gl')]))"

definition finish_main ::
  "tangor_build \<Rightarrow> 'a main_env \<Rightarrow> bool \<times> cufhe_call list \<Rightarrow> 'a main_event list" where
  "finish_main bld env cuf =
     (if write_bound_lp env \<and> lp_file_ok env then [BoundPrinted] else []) @
     (if use_cufhepp bld then map CufheCall (drop (length (snd cuf)) (snd (CufheppCleanUp cuf))) else []) @
     [StarpuShutdown,
      RuntimeLogged (if use_hoge bld then ''HOGE_runtime.txt''
                     else if use_cufhepp bld then ''cuFHEpp_runtime.txt''
                     else ''CPU_runtime.txt'')]"

definition tangor_main ::
  "tangor_build \<Rightarrow> 'w::len word tfhe_api \<Rightarrow> 'j json_api \<Rightarrow> 'w word main_env \<Rightarrow>
   ('w word gate_task list \<Rightarrow> (handle \<Rightarrow> 'w tlwe) \<Rightarrow> handle \<Rightarrow> 'w tlwe) \<Rightarrow>
   main_end \<times> 'w word main_event list" where
  "tangor_main bld api js env sched =
     (if \<not> eval_key_ok env then (InputException, [])
      else case cloud_data env of None \<Rightarrow> (InputException, [])
      | Some cin \<Rightarrow> (case circuit_json env of None \<Rightarrow> (Returned 1, [])
      | Some json \<Rightarrow> (case parse_netlist (use_m12 bld) js json of Inl e \<Rightarrow> (ParserException e, [])
      | Inr b \<Rightarrow>
          if starpu_init_status env \<noteq> 0 then (Returned 1, [])
          else (case start_backends bld env (False, []) of Inl e \<Rightarrow> (FpgaExit e, [StarpuInit])
          | Inr (cuf, evs) \<Rightarrow>
              (case evaluate_graph bld api env sched b cin of
                 Inl e \<Rightarrow> (GraphUndefined e, StarpuInit # evs)
               | Inr evs' \<Rightarrow> (Returned 0, StarpuInit # evs @ evs' @ finish_main bld env cuf))))))"

section \<open>Properties\<close>

definition results_of :: "'a main_event list \<Rightarrow> 'a list list list" where
  "results_of evs = concat (map (\<lambda>e. case e of ResultWritten r \<Rightarrow> [r] | _ \<Rightarrow> []) evs)"

lemma results_of_append [simp]: "results_of (xs @ ys) = results_of xs @ results_of ys"
  by (simp add: results_of_def)

lemma results_of_Cons [simp]:
  "results_of (e # es) = (case e of ResultWritten r \<Rightarrow> [r] | _ \<Rightarrow> []) @ results_of es"
  by (simp add: results_of_def)

lemma results_of_calls [simp]: "results_of (map CufheCall cs) = []" "results_of [] = []"
  by (induction cs) (simp_all add: results_of_def)

lemma start_backends_results:
  "start_backends bld env cuf = Inr (cuf', evs) \<Longrightarrow> results_of evs = []"
  by (auto simp: start_backends_def Let_def rbind_eq_Inr split: if_split_asm option.split_asm)

lemma finish_main_results: "results_of (finish_main bld env cuf) = []"
  by (simp add: finish_main_def)

text \<open>The scheduler oracle returns the data of some completed execution.\<close>

definition sched_ok ::
  "'w::len word platform \<Rightarrow> (nat \<Rightarrow> 'w word hoge_state) \<Rightarrow> (nat \<Rightarrow> arch \<times> int) \<Rightarrow>
   ('w word gate_task list \<Rightarrow> (handle \<Rightarrow> 'w tlwe) \<Rightarrow> handle \<Rightarrow> 'w tlwe) \<Rightarrow> bool" where
  "sched_ok p hs place sched \<longleftrightarrow>
     (\<forall>tasks s. starpu_run task_rd task_wr (run_task p hs place) (submitted (enumerate 0 tasks), s)
        ([], sched tasks s))"

lemma evaluate_graph_outputs:
  assumes "netlist_inv b" and "combinational b" and "platform_ok key B Bo M p"
    and "\<And>k. fpga_ready p (hs k)" and "sched_ok p hs place sched"
    and "\<And>k. k < length (gate_vector b) \<Longrightarrow> placed_ok p (use_cufhepp bld) (place k) (gate_vector b ! k)"
    and "list_all2 (\<lambda>i c. cipher key B p (x i) c) (input_vector b) cin"
  shows "\<exists>evs outs. evaluate_graph bld (tfhe p) env sched b cin = Inr evs \<and> results_of evs = [outs] \<and>
           list_all2 (\<lambda>i c. cipher key B p (eval_netlist b x i) c) (output_vector b) outs"
proof -
  let ?gl = "size_vectors (tfhe p) b (loaded cin)"
    and ?tasks = "map (gate_task_of (use_cufhepp bld) (mu (tfhe p)) b) (gate_vector b)"
  let ?outs = "cipherout (starpu_sync_outputs_to_host (sched ?tasks (registered ?gl)) ?gl)"
  have "\<forall>k < length (gate_vector b). placed_ok p (use_cufhepp bld) (place k) (gate_vector b ! k)"
    using assms(6) by blast
  note out = evaluate [OF assms(1-4) this assms(7)]
  have "sched ?tasks (registered ?gl) = run_in_order (run_task p hs place) (enumerate 0 ?tasks) (registered ?gl)"
    using assms(5) tangor.deterministic unfolding sched_ok_def by blast
  moreover have "length (cipherout ?gl) = length (output_vector b)"
    by (simp add: size_vectors_def Let_def)
  ultimately have "list_all2 (\<lambda>i c. cipher key B p (eval_netlist b x i) c) (output_vector b) ?outs"
    using out by (simp add: list_all2_conv_all_nth starpu_sync_outputs_to_host_def)
  moreover have "\<exists>evs. evaluate_graph bld (tfhe p) env sched b cin = Inr evs \<and> results_of evs = [?outs]"
    by (simp add: build_combinational [OF assms(1,2)] evaluate_graph_def Let_def)
  ultimately show ?thesis by blast
qed

lemma tangor_main_success:
  assumes "tangor_main bld api js env sched = (Returned 0, evs)"
  obtains cuf start mid cin b where "start_backends bld env (False, []) = Inr (cuf, start)"
    and "evaluate_graph bld api env sched b cin = Inr mid"
    and "evs = StarpuInit # start @ mid @ finish_main bld env cuf"
  using assms unfolding tangor_main_def by (auto split: if_split_asm option.split_asm sum.split_asm)


definition sample_env :: "32 word main_env" where
  "sample_env = \<lparr>eval_key_ok = True, cloud_data = Some [exact_sample True, exact_sample False],
     circuit_json = Some ''{}'', starpu_init_status = 0, cuda_worker_count = 1,
     cuda_device_count = (True, 1), mem_topology = 0, argv1 = Some ''hoge.xclbin'', fpga_devices = sample_devices,
     fpga_setup_ok = True, write_bound_lp = False, lp_file_ok = True\<rparr>"

definition sample_build :: tangor_build where
  "sample_build = \<lparr>use_m12 = False, use_cufhepp = True, use_hoge = False\<rparr>"

definition sample_sched ::
  "32 word gate_task list \<Rightarrow> (handle \<Rightarrow> 32 word list) \<Rightarrow> handle \<Rightarrow> 32 word list" where
  "sample_sched tasks s = run_in_order (run_task (sample_platform None) (\<lambda>_. sample_hoge_state)
     (\<lambda>k. (STARPU_CUDA, int k))) (enumerate 0 tasks) s"




lemma start_backends_counts:
  assumes "start_backends bld env (False, []) = Inr (cuf, evs)"
  shows "count_list evs StarpuInit = 0 \<and> count_list evs StarpuShutdown = 0 \<and>
         count_list evs (CufheCall CleanUp) = 0 \<and>
         count_list evs (CufheCall Initialize) = (if use_cufhepp bld \<and> fst cuf then 1 else 0)"
  using assms
  by (auto simp: start_backends_def CufheppInitialize_def Let_def rbind_eq_Inr
      split: if_split_asm prod.splits option.split_asm)

lemma finish_main_counts:
  "count_list (finish_main bld env cuf) StarpuInit = 0 \<and>
   count_list (finish_main bld env cuf) StarpuShutdown = 1 \<and>
   count_list (finish_main bld env cuf) (CufheCall Initialize) = 0 \<and>
   count_list (finish_main bld env cuf) (CufheCall CleanUp) = (if use_cufhepp bld \<and> fst cuf then 1 else 0)"
  by (simp add: finish_main_def CufheppCleanUp_def)

lemma evaluate_graph_counts:
  assumes "evaluate_graph bld api env sched b cin = Inr evs"
  shows "count_list evs StarpuInit = 0 \<and> count_list evs StarpuShutdown = 0 \<and>
         count_list evs (CufheCall c) = 0"
  using assms by (auto simp: evaluate_graph_def Let_def rbind_eq_Inr)

text \<open>C37. Runtimes are paired: in a run that returns 0 StarPU is started once and first, and shut down
  once, with nothing but the log line after it; cuFHEpp is cleaned up as often as it was
  initialised, once or never, and the result is written before either is torn down.\<close>

theorem main_runtimes_paired:
  assumes "tangor_main bld api js env sched = (Returned 0, evs)"
  shows "hd evs = StarpuInit \<and> count_list evs StarpuInit = 1 \<and> count_list evs StarpuShutdown = 1 \<and>
         count_list evs (CufheCall CleanUp) = count_list evs (CufheCall Initialize) \<and>
         count_list evs (CufheCall Initialize) \<le> 1 \<and>
         (\<exists>pre r mid f. evs = pre @ [ResultWritten r] @ mid @ [StarpuShutdown, RuntimeLogged f] \<and>
            CufheCall CleanUp \<notin> set pre)"
  using assms
proof (rule tangor_main_success)
  fix cuf start mid cin b
  assume start: "start_backends bld env (False, []) = Inr (cuf, start)"
    and mid: "evaluate_graph bld api env sched b cin = Inr mid"
    and evs: "evs = StarpuInit # start @ mid @ finish_main bld env cuf"
  note counts = start_backends_counts [OF start] finish_main_counts [of bld env cuf]
    evaluate_graph_counts [OF mid]
  obtain pre r where pre: "mid = pre @ [ResultWritten r]" "CufheCall CleanUp \<notin> set pre"
    using mid by (auto simp: evaluate_graph_def Let_def rbind_eq_Inr)
  have nostart: "CufheCall CleanUp \<notin> set start"
    using counts(1) by (simp add: count_list_0_iff)
  obtain fin f where fin: "finish_main bld env cuf = fin @ [StarpuShutdown, RuntimeLogged f]"
    unfolding finish_main_def by (metis append.assoc)
  have shape: "evs = (StarpuInit # start @ pre) @ [ResultWritten r] @ fin @ [StarpuShutdown, RuntimeLogged f]"
    unfolding evs pre fin by simp
  have "CufheCall CleanUp \<notin> set (StarpuInit # start @ pre)"
    using nostart pre(2) by simp
  with shape have tail: "\<exists>pre r mid f. evs = pre @ [ResultWritten r] @ mid @ [StarpuShutdown, RuntimeLogged f] \<and>
      CufheCall CleanUp \<notin> set pre" by blast
  have "hd evs = StarpuInit" unfolding evs by simp
  moreover have "count_list evs StarpuInit = 1" and "count_list evs StarpuShutdown = 1"
    and "count_list evs (CufheCall CleanUp) = count_list evs (CufheCall Initialize)"
    and "count_list evs (CufheCall Initialize) \<le> 1"
    unfolding evs using counts by simp_all
  ultimately show ?thesis using tail by blast
qed

theorem main_runtimes_paired_witness:
  "\<exists>evs. tangor_main sample_build (tfhe (sample_platform None)) (sample_api and_document) sample_env
      sample_sched = (Returned 0, evs) \<and> count_list evs StarpuShutdown = 1"
proof -
  have start: "start_backends sample_build sample_env (False, []) =
      Inr ((True, [SetGPUNum 1, Initialize]), [CufheCall (SetGPUNum 1), CufheCall Initialize])"
    by (simp add: start_backends_def sample_build_def sample_env_def CufheppInitialize_def)
  obtain mid where mid: "evaluate_graph sample_build (tfhe (sample_platform None)) sample_env sample_sched
      and_netlist [exact_sample True, exact_sample False] = Inr mid"
    by (simp add: build_combinational [OF parse_netlist_inv [OF and_document_parsed]
        and_netlist_combinational] evaluate_graph_def Let_def)
  have "\<exists>evs. tangor_main sample_build (tfhe (sample_platform None)) (sample_api and_document) sample_env
      sample_sched = (Returned 0, evs)"
    using start mid and_document_parsed
    by (simp add: tangor_main_def sample_env_def sample_build_def)
  then show ?thesis using main_runtimes_paired by blast
qed

end
