(* ===== verification/Netlist_Documents.thy ===== *)
theory Netlist_Documents
  imports Yosys_Json_Parser
begin

text \<open>
  Which documents the netlist parser (src/src/yosys-json-parser.cpp) accepts: exactly those in
  which every port and every cell says what the constructor asks for and no gate drives the largest bit number.
  And that nothing is lost: a printer for netlists in the form that Yosys writes, and that
  parsing what it prints gives the netlist back.
\<close>

section \<open>Acceptance\<close>

definition port_ok :: "'j json_api \<Rightarrow> 'j \<Rightarrow> bool" where
  "port_ok api p \<longleftrightarrow> port_direction api p \<in> {Some ''input'', Some ''output''} \<and>
     Option.bind (js_key api p ''bits'') (js_ints api) \<noteq> None"

definition cell_ok :: "bool \<Rightarrow> 'j json_api \<Rightarrow> 'j \<Rightarrow> bool" where
  "cell_ok m12 api c \<longleftrightarrow>
     (if is_dff api c
      then \<not> isl (connection api c ''Q'') \<and> \<not> isl (connection api c ''D'')
      else (case cell_gate m12 api c of Inl _ \<Rightarrow> False
            | Inr g \<Rightarrow> gs_out g ! 0 \<noteq> - 1 \<and> gs_out g ! 1 \<noteq> - 1))"

lemma cell_ok_iff:
  "cell_ok m12 api c \<longleftrightarrow>
     (if is_dff api c
      then (\<exists>q. connection api c ''Q'' = Inr q) \<and> (\<exists>d. connection api c ''D'' = Inr d)
      else (\<exists>g. cell_gate m12 api c = Inr g \<and> gs_out g ! 0 \<noteq> - 1 \<and> gs_out g ! 1 \<noteq> - 1))"
  by (cases "connection api c ''Q''"; cases "connection api c ''D''") (auto simp: cell_ok_def split: sum.splits)

lemma parse_port_iff: "(\<exists>st'. parse_port api p st = Inr st') \<longleftrightarrow> port_ok api p"
  by (auto simp: parse_port_def port_ok_def port_direction_def result_simps rbind_def json_call_def
      split: option.splits bind_splits)

lemma note_dependency_iff:
  assumes "length deps < 2 ^ 32"
  shows "(\<exists>deps'. note_dependency gi v deps = Inr deps') \<longleftrightarrow> v \<noteq> - 1"
proof
  assume "v \<noteq> - 1"
  then have "unat (v + 1) = Suc (unat v)"
    by (metis add.commute add.right_inverse unatSuc eq_neg_iff_add_eq_0)
  then show "\<exists>deps'. note_dependency gi v deps = Inr deps'"
    by (auto simp: note_dependency_def Let_def vec_set_def)
qed (use note_dependency_max [OF assms, of gi] in auto)

lemma record_output_iff:
  assumes "unat (gate_index st - 1) = length gates" and "length deps < 2 ^ 32"
  shows "(\<exists>st'. record_output k v (with_gates st (gates @ [gate nm ins outs]) wires deps) = Inr st') \<longleftrightarrow> v \<noteq> - 1"
  using record_output_slot [OF assms(1)] note_dependency_iff [OF assms(2)] by auto

lemma parse_more_inputs_iff:
  assumes pos: "unat (gate_index st - 1) = length gates" and len: "length deps < 2 ^ 32"
  shows "(\<exists>r. parse_more_inputs m12 api cell nm
            (with_gates st (gates @ [gate n0 [a, 0, 0] [y, 0, 0]]) wires deps) = Inr r) \<longleftrightarrow>
         (\<exists>name b c x. more_inputs_spec m12 api cell nm = Inr (name, b, c, x) \<and> x \<noteq> Some (- 1))"
    (is "?parsed \<longleftrightarrow> ?spec")
proof
  assume ?parsed
  then obtain name st' where "parse_more_inputs m12 api cell nm
      (with_gates st (gates @ [gate n0 [a, 0, 0] [y, 0, 0]]) wires deps) = Inr (name, st')"
    by (metis surj_pair)
  from parse_more_inputs_effect [OF this pos] show ?spec
  proof (elim disjE exE conjE)
    fix b c x deps'
    assume "more_inputs_spec m12 api cell nm = Inr (name, b, c, Some x)"
      and "note_dependency (gate_index st) x deps = Inr deps'"
    moreover from this(2) have "x \<noteq> - 1"
      using note_dependency_iff [OF len] by blast
    ultimately show ?spec by blast
  qed blast
next
  assume ?spec
  then obtain name b c x where spec: "more_inputs_spec m12 api cell nm = Inr (name, b, c, x)"
    and x: "x \<noteq> Some (- 1)" by blast
  note slot = set_gate_in_slot [OF pos] record_output_slot [OF pos]
  from spec have b: "connection api cell ''B'' = Inr b"
    by (auto simp: more_inputs_spec_def rbind_eq_Inr split: if_splits)
  show ?parsed
  proof (cases "nm = ''fa''")
    case True
    from spec obtain v cj where v: "connection api cell ''X'' = Inr v" "x = Some v"
      and cj: "connection_json api cell ''C'' = Inr cj"
      and c: "js_is_string api cj \<or> connection api cell ''C'' = Inr c"
      by (auto simp: more_inputs_spec_def rbind_eq_Inr True split: if_splits)
    from x v(2) obtain deps' where "note_dependency (gate_index st) v deps = Inr deps'"
      using note_dependency_iff [OF len] by auto
    then have out: "record_output 1 v (with_gates st (gates @ [gate n0 [a, b, 0] [y, 0, 0]]) wires deps) =
        Inr (with_gates st (gates @ [gate n0 [a, b, 0] [y, v, 0]])
               (note_wire (output_vector (bc st)) v wires) deps')"
      by (simp add: slot)
    from c show ?thesis
      by (auto simp: parse_more_inputs_def b v cj True set_gate_in_slot [OF pos] out [unfolded One_nat_def])
  next
    case False
    with spec b show ?thesis
      by (auto simp: parse_more_inputs_def more_inputs_spec_def slot rbind_eq_Inr split: if_splits)
  qed
qed


lemma ensure_gate_slot_slot:
  assumes "counts_ok st" and "Suc (length (gate_vector (bc st))) < 2 ^ 32"
  shows "ensure_gate_slot st =
      with_gates st (gate_vector (bc st) @ [empty_gate]) (wire_vector (bc st)) (dependency_vector (bc st))"
    and "unat (gate_index st - 1) = length (gate_vector (bc st))"
proof -
  have gi: "gate_index st = word_of_nat (Suc (length (gate_vector (bc st))))"
    using assms(1) by (simp add: counts_ok_def)
  note eqs = unat_pred_Suc [OF assms(2), folded gi]
  then show "unat (gate_index st - 1) = length (gate_vector (bc st))" by simp
  show "ensure_gate_slot st =
      with_gates st (gate_vector (bc st) @ [empty_gate]) (wire_vector (bc st)) (dependency_vector (bc st))"
    using eqs(1) by (cases st) (simp add: ensure_gate_slot_def with_gates_def vec_resize_def)
qed

text \<open>The bits of a gate cell, read off the JSON value: Y, A, and what \<open>more_inputs_spec\<close> says.\<close>

definition gate_bits ::
  "bool \<Rightarrow> 'j json_api \<Rightarrow> 'j \<Rightarrow> string \<Rightarrow> uint \<Rightarrow> uint \<Rightarrow> string \<times> uint \<times> uint \<times> uint option \<Rightarrow> bool" where
  "gate_bits m12 api cell nm y a r \<longleftrightarrow>
     connection api cell ''Y'' = Inr y \<and> connection api cell ''A'' = Inr a \<and>
     (if nm \<noteq> ''NOT'' then more_inputs_spec m12 api cell nm = Inr r else r = (nm, 0, 0, None))"

lemma gate_spec_eq_Inr:
  "gate_spec m12 api cell nm = Inr g \<longleftrightarrow>
   (\<exists>y a name b c x. gate_bits m12 api cell nm y a (name, b, c, x) \<and>
      g = gate name [a, b, c] [y, case x of None \<Rightarrow> 0 | Some v \<Rightarrow> v, 0])"
  by (auto simp: gate_spec_def gate_bits_def rbind_eq_Inr)

lemma gate_spec_bits:
  "(\<exists>g. gate_spec m12 api cell nm = Inr g \<and> gs_out g ! 0 \<noteq> - 1 \<and> gs_out g ! 1 \<noteq> - 1) \<longleftrightarrow>
   (\<exists>y a name b c x. gate_bits m12 api cell nm y a (name, b, c, x) \<and> y \<noteq> - 1 \<and> x \<noteq> Some (- 1))"
proof -
  have slot: "(case x of None \<Rightarrow> 0 | Some v \<Rightarrow> v) \<noteq> (- 1 :: uint) \<longleftrightarrow> x \<noteq> Some (- 1)" for x
    by (cases x) auto
  have "gs_out g ! 0 = y \<and> gs_out g ! 1 = z" if "g = gate name ins [y, z, 0]" for g name ins y z
    using that by simp
  then show ?thesis
    unfolding gate_spec_eq_Inr using slot by metis
qed

lemma parse_gate_iff:
  assumes counts: "counts_ok st" and len: "length (dependency_vector (bc st)) < 2 ^ 32"
  shows "(\<exists>st'. parse_gate m12 api cell nm st = Inr st') \<longleftrightarrow>
    (\<exists>g. gate_spec m12 api cell nm = Inr g \<and> gs_out g ! 0 \<noteq> - 1 \<and> gs_out g ! 1 \<noteq> - 1) \<and>
    Suc (length (gate_vector (bc st))) < 2 ^ 32"
    (is "?parsed \<longleftrightarrow> _ \<and> ?room")
proof (unfold gate_spec_bits, intro iffI conjI)
  let ?gates = "gate_vector (bc st)" and ?wires = "wire_vector (bc st)"
  let ?note = "note_wire (output_vector (bc st))"
  {
    assume ?parsed
    then obtain y st1 a st2 r where
      yc: "connection api cell ''Y'' = Inr y" "connection api cell ''A'' = Inr a" and
      y: "record_output 0 y (ensure_gate_slot st) = Inr st1" and
      a: "set_gate_in 0 a st1 = Inr st2" and
      more: "(if nm \<noteq> ''NOT'' then parse_more_inputs m12 api cell nm st2 else Inr (nm, st2)) = Inr r"
      by (auto simp: parse_gate_def result_simps)
    note fresh = ensure_gate_slot_fresh [OF counts y]
    show ?room by (rule fresh(3))
    from y obtain deps where
      deps: "note_dependency (gate_index st) y (dependency_vector (bc st)) = Inr deps" and
      st2: "st2 = with_gates st (?gates @ [gate [] [a, 0, 0] [y, 0, 0]]) (?note y ?wires) deps"
      using a by (auto simp: fresh(1) record_output_slot [OF fresh(2)] set_gate_in_slot [OF fresh(2)]
          empty_gate_def numeral_3_eq_3)
    have "\<exists>name b c x. gate_bits m12 api cell nm y a (name, b, c, x) \<and> x \<noteq> Some (- 1)"
    proof (cases "nm = ''NOT''")
      case False
      with more have "\<exists>r. parse_more_inputs m12 api cell nm st2 = Inr r" by auto
      from this [unfolded st2 parse_more_inputs_iff [OF fresh(2) note_dependency_length [OF deps len]]]
      show ?thesis using False yc by (auto simp: gate_bits_def)
    qed (use yc in \<open>auto simp: gate_bits_def\<close>)
    moreover have "y \<noteq> - 1"
      using deps note_dependency_iff [OF len] by blast
    ultimately show "\<exists>y a name b c x. gate_bits m12 api cell nm y a (name, b, c, x) \<and>
        y \<noteq> - 1 \<and> x \<noteq> Some (- 1)" by blast
  next
    assume "(\<exists>y a name b c x. gate_bits m12 api cell nm y a (name, b, c, x) \<and>
        y \<noteq> - 1 \<and> x \<noteq> Some (- 1)) \<and> ?room"
    then obtain y a name b c x where bits: "gate_bits m12 api cell nm y a (name, b, c, x)"
      and y: "y \<noteq> - 1" and x: "x \<noteq> Some (- 1)" and room: ?room by blast
    note fresh = ensure_gate_slot_slot [OF counts room]
    obtain deps where deps: "note_dependency (gate_index st) y (dependency_vector (bc st)) = Inr deps"
      using y note_dependency_iff [OF len] by blast
    let ?st1 = "\<lambda>a. with_gates st (?gates @ [gate [] [a, 0, 0] [y, 0, 0]]) (?note y ?wires) deps"
    have out: "record_output 0 y (ensure_gate_slot st) = Inr (?st1 0)"
      using deps by (simp add: fresh(1) record_output_slot [OF fresh(2)] empty_gate_def numeral_3_eq_3)
    have set_in: "set_gate_in 0 a (?st1 0) = Inr (?st1 a)"
      by (simp add: set_gate_in_slot [OF fresh(2)])
    have "\<exists>name gates' wires' deps' g.
        (if nm \<noteq> ''NOT'' then parse_more_inputs m12 api cell nm (?st1 a) else Inr (nm, ?st1 a)) =
        Inr (name, with_gates st (?gates @ [g]) wires' deps')"
    proof (cases "nm = ''NOT''")
      case False
      with bits x parse_more_inputs_iff [OF fresh(2) note_dependency_length [OF deps len], of m12 api cell nm]
      obtain name st' where more: "parse_more_inputs m12 api cell nm (?st1 a) = Inr (name, st')"
        unfolding gate_bits_def by (metis surj_pair)
      from parse_more_inputs_effect [OF this fresh(2)] more False show ?thesis by auto
    qed auto
    then show ?parsed
      using bits by (auto simp: parse_gate_def gate_bits_def out set_in update_gate_slot [OF fresh(2)])
  }
qed

section \<open>Cells, ports and modules\<close>

text \<open>
  The state between two cells or ports, with the cells read so far: the number of gates is the
  number of the gate cells among them.
\<close>

lemma parser_inv_lengths:
  assumes "parser_inv m12 api ports cells st"
  shows "length (dependency_vector (bc st)) < 2 ^ 32" and "counts_ok st"
    and "length (gate_vector (bc st)) = length (filter (\<lambda>c. \<not> is_dff api c) cells)"
    and "length (filter (\<lambda>c. \<not> is_dff api c) cells) < 2 ^ 32"
proof -
  show len: "length (gate_vector (bc st)) = length (filter (\<lambda>c. \<not> is_dff api c) cells)"
    using assms by (metis parser_inv_def lists_document_def length_map)
  show counts: "counts_ok st" and "length (dependency_vector (bc st)) < 2 ^ 32"
    using assms by (auto simp: parser_inv_def netlist_inv_def deps_ok_def)
  show "length (filter (\<lambda>c. \<not> is_dff api c) cells) < 2 ^ 32"
    using counts by (simp add: counts_ok_def flip: len)
qed

lemma parse_cell_step:
  assumes nm: "cell_name api c = Inr nm"
  shows "parse_cell m12 api c st =
    (if is_dff api c then parse_dff api c st else parse_gate m12 api c nm st)"
proof -
  from nm obtain t ct s where "js_key api c ''type'' = Some t" "js_string api t = Some ct"
    "strip_cell_type ct = Inr s" "nm = tfhe_gate_name s"
    by (auto simp: cell_name_def result_simps)
  then show ?thesis
    by (simp add: parse_cell_def json_call_def is_dff_def nm Let_def)
qed

lemma parse_cell_iff:
  assumes inv: "parser_inv m12 api ports cells st"
  shows "(\<exists>st'. parse_cell m12 api c st = Inr st') \<longleftrightarrow>
    cell_ok m12 api c \<and> length (filter (\<lambda>c. \<not> is_dff api c) (cells @ [c])) < 2 ^ 32"
proof (cases "cell_name api c")
  case (Inl e)
  then have "\<not> is_dff api c" and "cell_gate m12 api c = Inl e"
    by (simp_all add: is_dff_def cell_gate_def)
  moreover have "\<nexists>st'. parse_cell m12 api c st = Inr st'"
    using Inl by (auto elim!: parse_cell_cases simp: is_dff_def)
  ultimately show ?thesis by (simp add: cell_ok_iff)
next
  case (Inr nm)
  note lens = parser_inv_lengths [OF inv]
  show ?thesis
  proof (cases "is_dff api c")
    case True
    then show ?thesis
      using lens(4) by (auto simp: parse_cell_step [OF Inr] cell_ok_iff parse_dff_def rbind_eq_Inr)
  next
    case False
    then show ?thesis
      using parse_gate_iff [OF lens(2,1), of m12 api c nm]
      by (simp add: parse_cell_step [OF Inr] cell_ok_iff cell_gate_def Inr lens(3))
  qed
qed

lemma parse_cells_iff:
  "parser_inv m12 api ports cells st \<Longrightarrow>
   (\<exists>st'. rfold (parse_cell m12 api) cs st = Inr st') \<longleftrightarrow>
     (\<forall>c \<in> set cs. cell_ok m12 api c) \<and>
     length (filter (\<lambda>c. \<not> is_dff api c) (cells @ cs)) < 2 ^ 32"
proof (induction cs arbitrary: cells st)
  case Nil
  then show ?case using parser_inv_lengths(4) by fastforce
next
  case (Cons c cs)
  let ?room = "\<lambda>cells. length (filter (\<lambda>c. \<not> is_dff api c) cells) < 2 ^ 32"
  show ?case
  proof (cases "parse_cell m12 api c st")
    case (Inl e)
    then have "\<not> (cell_ok m12 api c \<and> ?room (cells @ [c]))"
      using parse_cell_iff [OF Cons.prems, of c] by simp
    moreover have "?room (cells @ c # cs) \<Longrightarrow> ?room (cells @ [c])"
      by (simp split: if_splits)
    ultimately show ?thesis using Inl by auto
  next
    case (Inr st1)
    then have "cell_ok m12 api c"
      using parse_cell_iff [OF Cons.prems, of c] by blast
    with Cons.IH [OF parse_cell_inv [OF Cons.prems Inr]] show ?thesis
      by (simp add: Inr)
  qed
qed

lemma parse_ports_iff:
  "(\<exists>st'. rfold (parse_port api) ps st = Inr st') \<longleftrightarrow> (\<forall>p \<in> set ps. port_ok api p)"
proof (induction ps arbitrary: st)
  case (Cons p ps)
  then show ?case
    using parse_port_iff [of api p st] by (cases "parse_port api p st") auto
qed simp

definition module_ok :: "bool \<Rightarrow> 'j json_api \<Rightarrow> 'j \<Rightarrow> bool" where
  "module_ok m12 api m \<longleftrightarrow>
     js_key api m ''ports'' \<noteq> None \<and> js_key api m ''cells'' \<noteq> None \<and>
     (\<forall>p \<in> set (section_list api ''ports'' m). port_ok api p) \<and>
     (\<forall>c \<in> set (section_list api ''cells'' m). cell_ok m12 api c)"

abbreviation gate_cells :: "'j json_api \<Rightarrow> 'j list \<Rightarrow> 'j list" where
  "gate_cells api cells \<equiv> filter (\<lambda>c. \<not> is_dff api c) cells"

lemma parse_module_iff:
  assumes inv: "parser_inv m12 api ports cells st"
  shows "(\<exists>st'. parse_module m12 api m st = Inr st') \<longleftrightarrow>
    module_ok m12 api m \<and> length (gate_cells api (cells @ section_list api ''cells'' m)) < 2 ^ 32"
proof (cases "js_key api m ''ports'' \<noteq> None \<and> js_key api m ''cells'' \<noteq> None")
  case True
  then obtain ps cs where keys: "js_key api m ''ports'' = Some ps" "js_key api m ''cells'' = Some cs"
    by blast
  then have lists: "section_list api ''ports'' m = js_range api ps" "section_list api ''cells'' m = js_range api cs"
    by (simp_all add: section_list_def)
  show ?thesis
  proof (cases "rfold (parse_port api) (js_range api ps) st")
    case (Inl e)
    then have "\<not> (\<forall>p \<in> set (js_range api ps). port_ok api p)"
      using parse_ports_iff [of api "js_range api ps" st] by simp
    then show ?thesis
      using Inl keys by (auto simp: parse_module_def module_ok_def lists json_call_def)
  next
    case (Inr st1)
    then have ok: "\<forall>p \<in> set (js_range api ps). port_ok api p"
      using parse_ports_iff [of api "js_range api ps" st] by blast
    have "parser_inv m12 api (ports @ js_range api ps) cells st1"
      using rfold_ghost [OF Inr, of "\<lambda>ps. parser_inv m12 api ps cells" ports "\<lambda>p. [p]"]
        inv parse_port_inv by (fastforce simp: concat_map_singleton)
    from parse_cells_iff [OF this, of "js_range api cs"] show ?thesis
      using ok keys by (simp add: parse_module_def module_ok_def lists json_call_def Inr)
  qed
next
  case False
  then show ?thesis
    by (auto simp: parse_module_def module_ok_def json_call_def rbind_eq_Inr split: option.splits)
qed

lemma parse_modules_iff:
  "parser_inv m12 api ports cells st \<Longrightarrow>
   (\<exists>st'. rfold (parse_module m12 api) ms st = Inr st') \<longleftrightarrow>
     (\<forall>m \<in> set ms. module_ok m12 api m) \<and>
     length (gate_cells api (cells @ concat (map (section_list api ''cells'') ms))) < 2 ^ 32"
proof (induction ms arbitrary: ports cells st)
  case Nil
  then show ?case using parser_inv_lengths(4) by fastforce
next
  case (Cons m ms)
  let ?cs = "section_list api ''cells'' m"
  show ?case
  proof (cases "parse_module m12 api m st")
    case (Inl e)
    then have "\<not> (module_ok m12 api m \<and> length (gate_cells api (cells @ ?cs)) < 2 ^ 32)"
      using parse_module_iff [OF Cons.prems, of m] by simp
    then show ?thesis using Inl by auto
  next
    case (Inr st1)
    then have "module_ok m12 api m"
      using parse_module_iff [OF Cons.prems, of m] by blast
    with Cons.IH [OF parse_module_inv [OF Cons.prems Inr]] show ?thesis
      by (simp add: Inr add.assoc)
  qed
qed

definition document_ok :: "bool \<Rightarrow> 'j json_api \<Rightarrow> 'j \<Rightarrow> bool" where
  "document_ok m12 api netlist \<longleftrightarrow>
     js_key api netlist ''modules'' \<noteq> None \<and>
     (\<forall>m \<in> set (section_list api ''modules'' netlist). module_ok m12 api m) \<and>
     length (gate_cells api (all_cells api netlist)) < 2 ^ 32"

lemma parse_netlist_iff:
  assumes "js_parse api jsonstring = Some netlist"
  shows "(\<exists>b. parse_netlist m12 api jsonstring = Inr b) \<longleftrightarrow> document_ok m12 api netlist"
proof (cases "js_key api netlist ''modules''")
  case None
  then show ?thesis
    by (auto simp: parse_netlist_def document_ok_def json_call_def assms)
next
  case (Some ms)
  have "(\<exists>b. parse_netlist m12 api jsonstring = Inr b) \<longleftrightarrow>
    (\<exists>st. rfold (parse_module m12 api) (js_range api ms) initial_state = Inr st)"
    by (auto simp: parse_netlist_def json_call_def assms Some rbind_eq_Inr)
  also have "\<dots> \<longleftrightarrow> document_ok m12 api netlist"
    using parse_modules_iff [OF parser_inv_initial, of m12 api "js_range api ms"]
    by (simp add: document_ok_def Some section_list_def all_cells_def)
  finally show ?thesis .
qed

text \<open>C19. The constructor returns a netlist for exactly the documents in which every module lists
  its ports and its cells, every port has the direction input or output and a list of bits, every
  cell has the connections that its type asks for, no gate drives bit 2 ^ 32 - 1, and there are
  fewer than 2 ^ 32 gates. On every other text it throws, looks up a missing key, or accesses a vector
  or a string out of range.\<close>

theorem parse_netlist_succeeds_iff:
  "(\<exists>b. parse_netlist m12 api jsonstring = Inr b) \<longleftrightarrow>
   (case js_parse api jsonstring of None \<Rightarrow> False
    | Some netlist \<Rightarrow> js_key api netlist ''modules'' \<noteq> None \<and>
        (\<forall>m \<in> set (section_list api ''modules'' netlist).
           js_key api m ''ports'' \<noteq> None \<and> js_key api m ''cells'' \<noteq> None \<and>
           (\<forall>p \<in> set (section_list api ''ports'' m). port_ok api p) \<and>
           (\<forall>c \<in> set (section_list api ''cells'' m). cell_ok m12 api c)) \<and>
        length (filter (\<lambda>c. \<not> is_dff api c) (all_cells api netlist)) < 2 ^ 32)"
proof (cases "js_parse api jsonstring")
  case None
  then show ?thesis by (auto simp: parse_netlist_def json_call_def)
next
  case (Some netlist)
  then show ?thesis
    using parse_netlist_iff [OF Some, of m12] by (simp add: document_ok_def module_ok_def)
qed

theorem parse_netlist_succeeds_iff_witness:
  "cell_ok False (sample_api and_document) (sample_cell ''$_NOT_'' [(''A'', 4), (''Y'', 5)]) \<and>
   (\<nexists>b. parse_netlist False (sample_api bad_document) ''{}'' = Inr b)"
proof
  show "cell_ok False (sample_api and_document) (sample_cell ''$_NOT_'' [(''A'', 4), (''Y'', 5)])"
    using parse_netlist_succeeds_iff [of False "sample_api and_document" "''{}''"] and_document_parsed
    by (simp add: sample_parse section_list_def) (simp add: sample_defs)
  show "\<nexists>b. parse_netlist False (sample_api bad_document) ''{}'' = Inr b"
    unfolding parse_netlist_succeeds_iff
    by (simp add: sample_defs bad_document_def section_list_def port_ok_def port_direction_def)
qed

section \<open>Printing a netlist\<close>

text \<open>
  A netlist in the form that Yosys writes: one module with a port of each direction, the gates
  and the flip-flops as cells. A gate that the parser can have stored keeps unused slots at 0.
\<close>

definition json_bit :: "uint \<Rightarrow> json" where
  "json_bit v = JNum (Word.uint v)"

definition print_port :: "string \<Rightarrow> uint list \<Rightarrow> json" where
  "print_port direction bits = JObj [(''direction'', JStr direction), (''bits'', JArr (map json_bit bits))]"

definition print_cell :: "string \<Rightarrow> (string \<times> json) list \<Rightarrow> json" where
  "print_cell cell_type conns =
     JObj [(''type'', JStr cell_type),
           (''connections'', JObj (map (\<lambda>(p, j). (p, JArr [j])) conns))]"

definition yosys_type :: "string \<Rightarrow> string" where
  "yosys_type nm =
     (if nm = ''fa'' \<or> nm = ''ha'' then ''$fa''
      else ''$_'' @ (if nm = ''ANDYN'' then ''ANDNOT'' else if nm = ''ORYN'' then ''ORNOT'' else nm) @ ''_'')"

text \<open>The port of the third input, if the gate has one.\<close>

definition third_port :: "bool \<Rightarrow> string \<Rightarrow> string option" where
  "third_port m12 nm =
     (if nm = ''MUX'' \<or> nm = ''NMUX'' then Some ''S''
      else if nm = ''fa'' \<or> m12 \<and> (nm = ''AOI3'' \<or> nm = ''OAI3'') then Some ''C''
      else None)"

definition print_gate :: "bool \<Rightarrow> GateStruct \<Rightarrow> json" where
  "print_gate m12 g = print_cell (yosys_type (gs_name g))
     ([(''Y'', json_bit (gs_out g ! 0)), (''A'', json_bit (gs_in g ! 0))] @
      (if gs_name g = ''NOT'' then [] else [(''B'', json_bit (gs_in g ! 1))]) @
      (if gs_name g = ''fa'' \<or> gs_name g = ''ha'' then [(''X'', json_bit (gs_out g ! 1))] else []) @
      (if gs_name g = ''ha'' then [(''C'', JStr ''0'')] else []) @
      (case third_port m12 (gs_name g) of None \<Rightarrow> [] | Some p \<Rightarrow> [(p, json_bit (gs_in g ! 2))]))"

definition print_dff :: "uint \<times> uint \<Rightarrow> json" where
  "print_dff qd = print_cell ''$_SDFF_PP0_'' [(''Q'', json_bit (fst qd)), (''D'', json_bit (snd qd))]"

definition print_netlist :: "bool \<Rightarrow> ParsedBC \<Rightarrow> json" where
  "print_netlist m12 b =
     JObj [(''modules'', JArr [sample_module
       [print_port ''input'' (input_vector b), print_port ''output'' (output_vector b)]
       (map (print_gate m12) (gate_vector b) @
        map print_dff (zip (DFF_Q_vector b) (DFF_D_vector b)))])]"

definition printable_gate :: "bool \<Rightarrow> GateStruct \<Rightarrow> bool" where
  "printable_gate m12 g \<longleftrightarrow>
     gs_name g \<notin> {''ANDNOT'', ''ORNOT'', ''SDFF_PP0''} \<and>
     length (gs_in g) = 3 \<and> length (gs_out g) = 3 \<and>
     gs_out g ! 0 \<noteq> - 1 \<and> gs_out g ! 1 \<noteq> - 1 \<and> gs_out g ! 2 = 0 \<and>
     (gs_name g \<noteq> ''fa'' \<and> gs_name g \<noteq> ''ha'' \<longrightarrow> gs_out g ! 1 = 0) \<and>
     (gs_name g = ''NOT'' \<longrightarrow> gs_in g ! 1 = 0) \<and>
     (third_port m12 (gs_name g) = None \<longrightarrow> gs_in g ! 2 = 0)"

lemma api_simps:
  "js_uint (sample_api d) j = (case j of JNum n \<Rightarrow> Some (word_of_int n) | _ \<Rightarrow> None)"
  "js_is_string (sample_api d) j = (case j of JStr _ \<Rightarrow> True | _ \<Rightarrow> False)"
  "js_string (sample_api d) (JStr s) = Some s"
  "js_key (sample_api d) (JObj kvs) k = map_of kvs k"
  "js_range (sample_api d) (JArr xs) = xs"
  by (simp_all add: sample_api_def)

lemma connection_json_print:
  "connection_json (sample_api d) (print_cell t conns) p =
   (case map_of conns p of None \<Rightarrow> Inl JsonException | Some j \<Rightarrow> Inr j)"
  by (simp add: connection_json_def print_cell_def sample_api_def json_call_def map_of_map
      split: option.split)

lemma connection_print:
  "connection (sample_api d) (print_cell t conns) p =
   (case map_of conns p of Some (JNum n) \<Rightarrow> Inr (word_of_int n) | _ \<Rightarrow> Inl JsonException)"
proof (cases "map_of conns p")
  case None
  then show ?thesis by (simp add: connection_def connection_json_print)
next
  case (Some j)
  then show ?thesis
    by (cases j) (simp_all add: connection_def connection_json_print api_simps json_call_def)
qed

lemma strip_yosys_type:
  assumes "nm \<notin> {''ANDNOT'', ''ORNOT''}"
  shows "strip_cell_type (yosys_type nm) = Inr stripped \<longleftrightarrow>
     stripped = (if nm = ''ha'' then ''fa'' else if nm = ''ANDYN'' then ''ANDNOT''
                 else if nm = ''ORYN'' then ''ORNOT'' else nm)"
  using assms by (auto simp: strip_cell_type_def yosys_type_def)

lemma cell_name_print:
  assumes "nm \<notin> {''ANDNOT'', ''ORNOT''}"
  shows "cell_name (sample_api d) (print_cell (yosys_type nm) conns) =
     Inr (if nm = ''ha'' then ''fa'' else nm)"
proof -
  have "strip_cell_type (yosys_type nm) =
     Inr (if nm = ''ha'' then ''fa'' else if nm = ''ANDYN'' then ''ANDNOT''
                 else if nm = ''ORYN'' then ''ORNOT'' else nm)"
    unfolding strip_yosys_type [OF assms] ..
  then show ?thesis
    using assms by (simp add: cell_name_def print_cell_def sample_api_def json_call_def tfhe_gate_name_def)
qed

lemma list_of_three: "length xs = 3 \<Longrightarrow> xs = [xs ! 0, xs ! 1, xs ! 2]"
  by (auto simp: numeral_3_eq_3 length_Suc_conv)

lemma gate_spec_print:
  assumes "printable_gate m12 g"
  shows "gate_spec m12 (sample_api d) (print_gate m12 g)
           (if gs_name g = ''ha'' then ''fa'' else gs_name g) = Inr g"
proof -
  obtain nm a b c y x where g: "g = gate nm [a, b, c] [y, x, 0]"
    using assms list_of_three [of "gs_in g"] list_of_three [of "gs_out g"]
    unfolding printable_gate_def by (metis GateStruct.surjective unit.exhaust)
  consider "nm = ''NOT''" | "nm = ''fa''" | "nm = ''ha''"
    | "nm \<notin> {''NOT'', ''fa'', ''ha''}" "third_port m12 nm = None"
    | p where "nm \<notin> {''NOT'', ''fa'', ''ha''}" "third_port m12 nm = Some p" by blast
  then show ?thesis
  proof cases
    case 5
    with assms show ?thesis
      by (auto simp: g printable_gate_def print_gate_def gate_spec_def more_inputs_spec_def third_port_def
          connection_print json_bit_def split: if_split_asm)
  qed (use assms in \<open>simp_all add: g printable_gate_def print_gate_def gate_spec_def more_inputs_spec_def
      third_port_def connection_print connection_json_print json_bit_def api_simps split: if_split_asm\<close>)
qed

lemma print_gate_cell:
  assumes "printable_gate m12 g"
  shows "\<not> is_dff (sample_api d) (print_gate m12 g)" and "cell_gate m12 (sample_api d) (print_gate m12 g) = Inr g"
proof -
  have "cell_name (sample_api d) (print_gate m12 g) = Inr (if gs_name g = ''ha'' then ''fa'' else gs_name g)"
    unfolding print_gate_def by (rule cell_name_print) (use assms in \<open>auto simp: printable_gate_def\<close>)
  then show "\<not> is_dff (sample_api d) (print_gate m12 g)"
    and "cell_gate m12 (sample_api d) (print_gate m12 g) = Inr g"
    using assms by (auto simp: is_dff_def cell_gate_def gate_spec_print [OF assms] printable_gate_def)
qed

lemma print_dff_cell:
  "is_dff (sample_api d) (print_dff qd)"
  "connection (sample_api d) (print_dff qd) ''Q'' = Inr (fst qd)"
  "connection (sample_api d) (print_dff qd) ''D'' = Inr (snd qd)"
proof -
  have "yosys_type ''SDFF_PP0'' = ''$_SDFF_PP0_''" by (simp add: yosys_type_def)
  from cell_name_print [of "''SDFF_PP0''" d, unfolded this]
  show "is_dff (sample_api d) (print_dff qd)"
    by (simp add: is_dff_def print_dff_def)
qed (simp_all add: print_dff_def connection_print json_bit_def)

lemma print_port_bits:
  "port_direction (sample_api d) (print_port dir bits) = Some dir"
  "Option.bind (js_key (sample_api d) (print_port dir bits) ''bits'') (js_ints (sample_api d)) =
     Some (map Word.uint bits)"
  "port_bits (sample_api d) dir' (print_port dir bits) = (if dir' = dir then bits else [])"
proof -
  show dir: "port_direction (sample_api d) (print_port dir bits) = Some dir"
    by (simp add: port_direction_def print_port_def api_simps)
  show bits: "Option.bind (js_key (sample_api d) (print_port dir bits) ''bits'') (js_ints (sample_api d)) =
     Some (map Word.uint bits)"
    by (simp add: print_port_def sample_api_def json_bit_def list_all_iff)
  show "port_bits (sample_api d) dir' (print_port dir bits) = (if dir' = dir then bits else [])"
    by (simp add: port_bits_def dir bits comp_def)
qed

text \<open>What the printed document lists.\<close>

lemma printed_sections:
  fixes d :: json
  shows "js_key (sample_api d) (print_netlist m12 b) ''modules'' \<noteq> None"
    and "section_list (sample_api d) ''modules'' (print_netlist m12 b) =
      [sample_module [print_port ''input'' (input_vector b), print_port ''output'' (output_vector b)]
        (map (print_gate m12) (gate_vector b) @ map print_dff (zip (DFF_Q_vector b) (DFF_D_vector b)))]"
    and "js_key (sample_api d) (sample_module ports cells) ''ports'' = Some (JArr ports)"
    and "js_key (sample_api d) (sample_module ports cells) ''cells'' = Some (JArr cells)"
    and "section_list (sample_api d) ''ports'' (sample_module ports cells) = ports"
    and "section_list (sample_api d) ''cells'' (sample_module ports cells) = cells"
  by (simp_all add: section_list_def print_netlist_def sample_module_def api_simps)

lemma printed_all:
  "all_ports (sample_api d) (print_netlist m12 b) =
     [print_port ''input'' (input_vector b), print_port ''output'' (output_vector b)]"
  "all_cells (sample_api d) (print_netlist m12 b) =
     map (print_gate m12) (gate_vector b) @ map print_dff (zip (DFF_Q_vector b) (DFF_D_vector b))"
  by (simp_all add: all_ports_def all_cells_def printed_sections)

lemma printed_filters:
  assumes "\<forall>g \<in> set gates. printable_gate m12 g"
  shows "filter (is_dff (sample_api d)) (map (print_gate m12) gates @ map print_dff dffs) = map print_dff dffs"
    and "gate_cells (sample_api d) (map (print_gate m12) gates @ map print_dff dffs) = map (print_gate m12) gates"
proof -
  have "filter (is_dff (sample_api d)) (map (print_gate m12) gates) = []"
    "gate_cells (sample_api d) (map (print_gate m12) gates) = map (print_gate m12) gates"
    using assms print_gate_cell(1) by (auto simp: filter_empty_conv intro!: filter_True)
  moreover have "filter (is_dff (sample_api d)) (map print_dff dffs) = map print_dff dffs"
    "gate_cells (sample_api d) (map print_dff dffs) = []"
    by (auto simp: print_dff_cell filter_empty_conv intro!: filter_True)
  ultimately show "filter (is_dff (sample_api d)) (map (print_gate m12) gates @ map print_dff dffs) = map print_dff dffs"
    and "gate_cells (sample_api d) (map (print_gate m12) gates @ map print_dff dffs) = map (print_gate m12) gates"
    by simp_all
qed

lemma printed_document_ok:
  assumes "\<forall>g \<in> set (gate_vector b). printable_gate m12 g" and "length (gate_vector b) < 2 ^ 32"
  shows "document_ok m12 (sample_api d) (print_netlist m12 b)"
proof -
  have "port_ok (sample_api d) (print_port dir bits)" if "dir \<in> {''input'', ''output''}" for dir bits
    using that by (auto simp: port_ok_def print_port_bits)
  moreover have "cell_ok m12 (sample_api d) (print_gate m12 g)" if "g \<in> set (gate_vector b)" for g
    using bspec [OF assms(1) that] by (auto simp: cell_ok_iff print_gate_cell printable_gate_def)
  moreover have "cell_ok m12 (sample_api d) (print_dff qd)" for qd
    by (simp add: cell_ok_iff print_dff_cell)
  moreover have "length (gate_cells (sample_api d) (all_cells (sample_api d) (print_netlist m12 b))) < 2 ^ 32"
    unfolding printed_all printed_filters(2) [OF assms(1)] length_map by (rule assms(2))
  ultimately show ?thesis
    unfolding document_ok_def
    by (intro conjI printed_sections(1)) (auto simp: module_ok_def printed_sections(2-6))
qed

lemma map_Inr_eq: "map Inr xs = map Inr ys \<longleftrightarrow> xs = ys"
  by (metis inj_Inr inj_map_eq_map)

lemma printed_document_lists:
  assumes "lists_document m12 (sample_api d) (all_ports (sample_api d) (print_netlist m12 b))
      (all_cells (sample_api d) (print_netlist m12 b)) b'"
    and ok: "\<forall>g \<in> set (gate_vector b). printable_gate m12 g"
    and len: "length (DFF_Q_vector b) = length (DFF_D_vector b)"
  shows "input_vector b' = input_vector b" and "output_vector b' = output_vector b"
    and "gate_vector b' = gate_vector b" and "DFF_Q_vector b' = DFF_Q_vector b"
    and "DFF_D_vector b' = DFF_D_vector b"
proof -
  note lists = assms(1) [unfolded lists_document_def printed_all printed_filters [OF ok]]
  show "input_vector b' = input_vector b" "output_vector b' = output_vector b"
    using lists by (simp_all add: print_port_bits)
  have "map (cell_gate m12 (sample_api d)) (map (print_gate m12) (gate_vector b)) = map Inr (gate_vector b)"
    using ok print_gate_cell(2) by (simp add: comp_def)
  then have "map Inr (gate_vector b') = (map Inr (gate_vector b) :: (parser_error + GateStruct) list)"
    using lists by metis
  then show "gate_vector b' = gate_vector b"
    unfolding map_Inr_eq .
  have zips: "map fst (zip (DFF_Q_vector b) (DFF_D_vector b)) = DFF_Q_vector b"
    "map snd (zip (DFF_Q_vector b) (DFF_D_vector b)) = DFF_D_vector b"
    using len by simp_all
  have "map Inr (DFF_Q_vector b') = (map Inr (map fst (zip (DFF_Q_vector b) (DFF_D_vector b))) :: (parser_error + uint) list)"
    "map Inr (DFF_D_vector b') = (map Inr (map snd (zip (DFF_Q_vector b) (DFF_D_vector b))) :: (parser_error + uint) list)"
    using lists by (simp_all add: print_dff_cell comp_def del: map_fst_zip map_snd_zip)
  then show "DFF_Q_vector b' = DFF_Q_vector b" "DFF_D_vector b' = DFF_D_vector b"
    unfolding zips map_Inr_eq .
qed



end
