(* ===== verification/Iyokan_Codelets.thy ===== *)
theory Iyokan_Codelets
  imports Wrapped_Codelets
begin

text \<open>
  The codelets of the KVSP evaluator (the first half of
  src/src/iyokan-starpu-codelets.cpp), their CUDA implementations
  (src/src/iyokan-cufhepp-starpu.cu) and the substitution of TFHEpp's gates
  (src/include/iyokan-starpu-offload.hpp). Wires are level-0 samples, RAM and
  ROM words are ring samples selected with CMUXFFT. TFHEpp and cuFHEpp are
  parameters. Shown here: every TFHEpp gate that the offload header replaces
  reaches a codelet that computes that gate on CPU and CUDA workers, and the
  in-place CMUX codelets compute what the three-operand codelet computes.
\<close>

section \<open>Values and libraries\<close>

text \<open>
  The contents of a registered buffer: a level-0 sample, a TRLWE or a TRGSW in
  the FFT domain; the latter two are opaque.
\<close>

datatype ('a, 'r, 'g) cell = TLWECell "'a list" | TRLWECell 'r | TRGSWCell 'g

text \<open>
  TFHEpp and cuFHEpp for an evaluation key: the level-0 gates, the ring
  operations, and the CUDA CMUX kernel, which is given the buffer it overwrites.
\<close>

record ('a, 'r, 'g) iyokan_api =
  gates0 :: "'a tfhe_api"
  cuda0 :: "'a cufhe_api"
  CMUXFFT :: "'g \<Rightarrow> 'r \<Rightarrow> 'r \<Rightarrow> 'r"
  HomMUXwoSE :: "'a list \<Rightarrow> 'a list \<Rightarrow> 'a list \<Rightarrow> 'r"
  CMUXTFHEppFFTkernel :: "int \<Rightarrow> 'r \<Rightarrow> 'g \<Rightarrow> 'r \<Rightarrow> 'r \<Rightarrow> 'r"

text \<open>
  What can go wrong in a codelet: a buffer that is too short, memory read as
  another type, the evaluation key pointer null, the wrong number of buffers, an
  architecture without implementation.
\<close>

datatype iy_codelet_error = ShortBuffer | WrongCell | NullEvalKey | BufferCount | NoCodelet

section \<open>CPU functions\<close>

text \<open>The copy loops over \<open>output.size()\<close> words.\<close>

definition load_tlwe :: "nat \<Rightarrow> ('a, 'r, 'g) cell \<Rightarrow> iy_codelet_error + 'a list" where
  "load_tlwe n c = (case c of
      TLWECell ws \<Rightarrow> if length ws < Suc n then Inl ShortBuffer else Inr (take (Suc n) ws)
    | _ \<Rightarrow> Inl WrongCell)"

definition store_tlwe ::
  "nat \<Rightarrow> 'a list \<Rightarrow> ('a, 'r, 'g) cell \<Rightarrow> iy_codelet_error + ('a, 'r, 'g) cell" where
  "store_tlwe n ws c = (case c of
      TLWECell old \<Rightarrow> if length old < Suc n \<or> length ws < Suc n then Inl ShortBuffer
                     else Inr (TLWECell (take (Suc n) ws @ drop (Suc n) old))
    | _ \<Rightarrow> Inl WrongCell)"

definition load_trlwe :: "('a, 'r, 'g) cell \<Rightarrow> iy_codelet_error + 'r" where
  "load_trlwe c = (case c of TRLWECell r \<Rightarrow> Inr r | _ \<Rightarrow> Inl WrongCell)"

definition load_trgsw :: "('a, 'r, 'g) cell \<Rightarrow> iy_codelet_error + 'g" where
  "load_trgsw c = (case c of TRGSWCell g \<Rightarrow> Inr g | _ \<Rightarrow> Inl WrongCell)"

text \<open>\<open>*currentEvalKey\<close>.\<close>

definition deref_key :: "'k option \<Rightarrow> iy_codelet_error + 'k" where
  "deref_key k = (case k of None \<Rightarrow> Inl NullEvalKey | Some x \<Rightarrow> Inr x)"

text \<open>
  Each function returns the new contents of buffer 0. \<open>lib\<close> gives the library
  for an evaluation key, \<open>n\<close> is the dimension of level 0, and the ring operations
  that take no key use the library of any key.
\<close>

definition binaryCodelet ::
  "('k \<Rightarrow> ('w::len word, 'r, 'g) iyokan_api) \<Rightarrow> nat \<Rightarrow> 'k option \<Rightarrow> int \<Rightarrow> int \<Rightarrow> 'w word \<Rightarrow>
   ('w word, 'r, 'g) cell list \<Rightarrow> iy_codelet_error + ('w word, 'r, 'g) cell" where
  "binaryCodelet lib n key caSign cbSign off buffers = (case buffers of
      [b0, b1, b2] \<Rightarrow>
        rbind (load_tlwe n b1) (\<lambda>left.
        rbind (load_tlwe n b2) (\<lambda>right.
        rbind (deref_key key) (\<lambda>ek.
        store_tlwe n (HomGate (gates0 (lib ek)) caSign cbSign off left right) b0)))
    | _ \<Rightarrow> Inl BufferCount)"

definition notCodelet ::
  "nat \<Rightarrow> ('w::len word, 'r, 'g) cell list \<Rightarrow> iy_codelet_error + ('w word, 'r, 'g) cell" where
  "notCodelet n buffers = (case buffers of
      [b0, b1] \<Rightarrow> rbind (load_tlwe n b1) (\<lambda>input. store_tlwe n (map uminus input) b0)
    | _ \<Rightarrow> Inl BufferCount)"

definition muxCodelet ::
  "('k \<Rightarrow> ('w::len word, 'r, 'g) iyokan_api) \<Rightarrow> nat \<Rightarrow> 'k option \<Rightarrow>
   ('w word, 'r, 'g) cell list \<Rightarrow> iy_codelet_error + ('w word, 'r, 'g) cell" where
  "muxCodelet lib n key buffers = (case buffers of
      [b0, b1, b2, b3] \<Rightarrow>
        rbind (load_tlwe n b1) (\<lambda>select.
        rbind (load_tlwe n b2) (\<lambda>whenTrue.
        rbind (load_tlwe n b3) (\<lambda>whenFalse.
        rbind (deref_key key) (\<lambda>ek.
        store_tlwe n (HomMUX (gates0 (lib ek)) select whenTrue whenFalse) b0))))
    | _ \<Rightarrow> Inl BufferCount)"

definition cmuxFFTCodelet ::
  "('g \<Rightarrow> 'r \<Rightarrow> 'r \<Rightarrow> 'r) \<Rightarrow> ('a, 'r, 'g) cell list \<Rightarrow> iy_codelet_error + ('a, 'r, 'g) cell" where
  "cmuxFFTCodelet cmux buffers = (case buffers of
      [b0, b1, b2, b3] \<Rightarrow>
        rbind (load_trlwe b0) (\<lambda>_.
        rbind (load_trgsw b1) (\<lambda>select.
        rbind (load_trlwe b2) (\<lambda>whenTrue.
        rbind (load_trlwe b3) (\<lambda>whenFalse.
        Inr (TRLWECell (cmux select whenTrue whenFalse))))))
    | _ \<Rightarrow> Inl BufferCount)"

definition cmuxFFTInPlaceTrueCodelet ::
  "('g \<Rightarrow> 'r \<Rightarrow> 'r \<Rightarrow> 'r) \<Rightarrow> ('a, 'r, 'g) cell list \<Rightarrow> iy_codelet_error + ('a, 'r, 'g) cell" where
  "cmuxFFTInPlaceTrueCodelet cmux buffers = (case buffers of
      [b0, b1, b2] \<Rightarrow>
        rbind (load_trlwe b0) (\<lambda>output.
        rbind (load_trgsw b1) (\<lambda>select.
        rbind (load_trlwe b2) (\<lambda>whenFalse.
        let whenTrue = output in Inr (TRLWECell (cmux select whenTrue whenFalse)))))
    | _ \<Rightarrow> Inl BufferCount)"

definition cmuxFFTInPlaceFalseCodelet ::
  "('g \<Rightarrow> 'r \<Rightarrow> 'r \<Rightarrow> 'r) \<Rightarrow> ('a, 'r, 'g) cell list \<Rightarrow> iy_codelet_error + ('a, 'r, 'g) cell" where
  "cmuxFFTInPlaceFalseCodelet cmux buffers = (case buffers of
      [b0, b1, b2] \<Rightarrow>
        rbind (load_trlwe b0) (\<lambda>output.
        rbind (load_trgsw b1) (\<lambda>select.
        rbind (load_trlwe b2) (\<lambda>whenTrue.
        let whenFalse = output in Inr (TRLWECell (cmux select whenTrue whenFalse)))))
    | _ \<Rightarrow> Inl BufferCount)"

definition muxWoSECodelet ::
  "('k \<Rightarrow> ('w::len word, 'r, 'g) iyokan_api) \<Rightarrow> nat \<Rightarrow> 'k option \<Rightarrow>
   ('w word, 'r, 'g) cell list \<Rightarrow> iy_codelet_error + ('w word, 'r, 'g) cell" where
  "muxWoSECodelet lib n key buffers = (case buffers of
      [b0, b1, b2, b3] \<Rightarrow>
        rbind (load_trlwe b0) (\<lambda>_.
        rbind (load_tlwe n b1) (\<lambda>select.
        rbind (load_tlwe n b2) (\<lambda>whenTrue.
        rbind (load_tlwe n b3) (\<lambda>whenFalse.
        rbind (deref_key key) (\<lambda>ek.
        Inr (TRLWECell (HomMUXwoSE (lib ek) select whenTrue whenFalse)))))))
    | _ \<Rightarrow> Inl BufferCount)"

section \<open>CUDA functions\<close>

definition currentCudaDevice :: "(int \<Rightarrow> int) \<Rightarrow> int \<Rightarrow> int" where
  "currentCudaDevice devid workerId =
     (let deviceId = devid workerId in if deviceId < 0 then 0 else deviceId)"

text \<open>The CUDA gates get the raw pointers; the library they run with is that of the loaded key.\<close>

definition runBinaryBootstrap ::
  "('w::len word) cufhe_api \<Rightarrow> nat \<Rightarrow> int \<Rightarrow> bootstrap2 \<Rightarrow>
   ('w word, 'r, 'g) cell list \<Rightarrow> iy_codelet_error + ('w word, 'r, 'g) cell" where
  "runBinaryBootstrap api n dev boot buffers = (case buffers of
      [b0, b1, b2] \<Rightarrow>
        rbind (load_tlwe n b1) (\<lambda>left.
        rbind (load_tlwe n b2) (\<lambda>right.
        store_tlwe n (Bootstrap2 api boot dev left right) b0))
    | _ \<Rightarrow> Inl BufferCount)"

definition iyokanCufheppHomMUX ::
  "('w::len word) cufhe_api \<Rightarrow> nat \<Rightarrow> int \<Rightarrow>
   ('w word, 'r, 'g) cell list \<Rightarrow> iy_codelet_error + ('w word, 'r, 'g) cell" where
  "iyokanCufheppHomMUX api n dev buffers = (case buffers of
      [b0, b1, b2, b3] \<Rightarrow>
        rbind (load_tlwe n b1) (\<lambda>select.
        rbind (load_tlwe n b2) (\<lambda>whenTrue.
        rbind (load_tlwe n b3) (\<lambda>whenFalse.
        store_tlwe n (MuxBootstrap api dev select whenTrue whenFalse) b0)))
    | _ \<Rightarrow> Inl BufferCount)"

definition iyokanCufheppCMUXFFT ::
  "('r \<Rightarrow> 'g \<Rightarrow> 'r \<Rightarrow> 'r \<Rightarrow> 'r) \<Rightarrow> ('a, 'r, 'g) cell list \<Rightarrow> iy_codelet_error + ('a, 'r, 'g) cell" where
  "iyokanCufheppCMUXFFT kern buffers = (case buffers of
      [b0, b1, b2, b3] \<Rightarrow>
        rbind (load_trlwe b0) (\<lambda>output.
        rbind (load_trgsw b1) (\<lambda>select.
        rbind (load_trlwe b2) (\<lambda>whenTrue.
        rbind (load_trlwe b3) (\<lambda>whenFalse.
        Inr (TRLWECell (kern output select whenTrue whenFalse))))))
    | _ \<Rightarrow> Inl BufferCount)"

definition iyokanCufheppCMUXFFTInPlaceTrue ::
  "('r \<Rightarrow> 'g \<Rightarrow> 'r \<Rightarrow> 'r \<Rightarrow> 'r) \<Rightarrow> ('a, 'r, 'g) cell list \<Rightarrow> iy_codelet_error + ('a, 'r, 'g) cell" where
  "iyokanCufheppCMUXFFTInPlaceTrue kern buffers = (case buffers of
      [b0, b1, b2] \<Rightarrow>
        rbind (load_trlwe b0) (\<lambda>output.
        rbind (load_trgsw b1) (\<lambda>select.
        rbind (load_trlwe b2) (\<lambda>whenFalse.
        Inr (TRLWECell (kern output select output whenFalse)))))
    | _ \<Rightarrow> Inl BufferCount)"

definition iyokanCufheppCMUXFFTInPlaceFalse ::
  "('r \<Rightarrow> 'g \<Rightarrow> 'r \<Rightarrow> 'r \<Rightarrow> 'r) \<Rightarrow> ('a, 'r, 'g) cell list \<Rightarrow> iy_codelet_error + ('a, 'r, 'g) cell" where
  "iyokanCufheppCMUXFFTInPlaceFalse kern buffers = (case buffers of
      [b0, b1, b2] \<Rightarrow>
        rbind (load_trlwe b0) (\<lambda>output.
        rbind (load_trgsw b1) (\<lambda>select.
        rbind (load_trlwe b2) (\<lambda>whenTrue.
        Inr (TRLWECell (kern output select whenTrue output)))))
    | _ \<Rightarrow> Inl BufferCount)"

section \<open>Codelets\<close>

datatype 'a iy_cpu = BinaryCpu int int "'a" | NotCpu | MuxCpu | CmuxCpu | CmuxTrueCpu | CmuxFalseCpu
  | MuxWoSECpu

datatype iy_cuda = BinaryCuda bootstrap2 | MuxCuda | CmuxCuda | CmuxTrueCuda | CmuxFalseCuda

record 'a iy_codelet =
  ic_where :: "arch list"
  ic_cpu :: "'a iy_cpu"
  ic_cuda :: "iy_cuda option"
  ic_name :: string
  ic_nbuffers :: nat
  ic_modes :: "access_mode list"

definition makeCodelet :: "'a iy_cpu \<Rightarrow> string \<Rightarrow> access_mode list \<Rightarrow> 'a iy_codelet" where
  "makeCodelet f name ms =
     \<lparr>ic_where = [STARPU_CPU], ic_cpu = f, ic_cuda = None, ic_name = name,
      ic_nbuffers = length ms, ic_modes = ms\<rparr>"

definition addCudaImplementation :: "iy_cuda \<Rightarrow> 'a iy_codelet \<Rightarrow> 'a iy_codelet" where
  "addCudaImplementation cudaFunction c =
     c\<lparr>ic_where := [STARPU_CPU, STARPU_CUDA], ic_cuda := Some cudaFunction\<rparr>"

text \<open>An initialiser object that runs only in a build with USE_CUFHEPP (\<open>cuf\<close>).\<close>

definition with_cuda :: "bool \<Rightarrow> iy_cuda \<Rightarrow> 'a iy_codelet \<Rightarrow> 'a iy_codelet" where
  "with_cuda cuf f c = (if cuf then addCudaImplementation f c else c)"

definition binary_codelet ::
  "bool \<Rightarrow> string \<Rightarrow> int \<Rightarrow> int \<Rightarrow> 'a \<Rightarrow> bootstrap2 \<Rightarrow> 'a iy_codelet" where
  "binary_codelet cuf name caSign cbSign off boot =
     with_cuda cuf (BinaryCuda boot)
       (makeCodelet (BinaryCpu caSign cbSign off) name [STARPU_W, STARPU_R, STARPU_R])"

definition andCodelet :: "bool \<Rightarrow> 'w::len word \<Rightarrow> 'w word iy_codelet" where
  "andCodelet cuf m = binary_codelet cuf ''andCodelet'' 1 1 (- m) AndBootstrap"
definition nandCodelet :: "bool \<Rightarrow> 'w::len word \<Rightarrow> 'w word iy_codelet" where
  "nandCodelet cuf m = binary_codelet cuf ''nandCodelet'' (- 1) (- 1) m NandBootstrap"
definition andNotCodelet :: "bool \<Rightarrow> 'w::len word \<Rightarrow> 'w word iy_codelet" where
  "andNotCodelet cuf m = binary_codelet cuf ''andNotCodelet'' 1 (- 1) (- m) AndYNBootstrap"
definition orCodelet :: "bool \<Rightarrow> 'w::len word \<Rightarrow> 'w word iy_codelet" where
  "orCodelet cuf m = binary_codelet cuf ''orCodelet'' 1 1 m OrBootstrap"
definition norCodelet :: "bool \<Rightarrow> 'w::len word \<Rightarrow> 'w word iy_codelet" where
  "norCodelet cuf m = binary_codelet cuf ''norCodelet'' (- 1) (- 1) (- m) NorBootstrap"
definition orNotCodelet :: "bool \<Rightarrow> 'w::len word \<Rightarrow> 'w word iy_codelet" where
  "orNotCodelet cuf m = binary_codelet cuf ''orNotCodelet'' 1 (- 1) m OrYNBootstrap"
definition xorCodelet :: "bool \<Rightarrow> 'w::len word \<Rightarrow> 'w word iy_codelet" where
  "xorCodelet cuf m = binary_codelet cuf ''xorCodelet'' 2 2 (2 * m) XorBootstrap"
definition xnorCodelet :: "bool \<Rightarrow> 'w::len word \<Rightarrow> 'w word iy_codelet" where
  "xnorCodelet cuf m = binary_codelet cuf ''xnorCodelet'' (- 2) (- 2) (- 2 * m) XnorBootstrap"

definition notStarpuCodelet :: "'a iy_codelet" where
  "notStarpuCodelet = makeCodelet NotCpu ''IyokanNOT'' [STARPU_W, STARPU_R]"

definition muxStarpuCodelet :: "bool \<Rightarrow> 'a iy_codelet" where
  "muxStarpuCodelet cuf = with_cuda cuf MuxCuda
     (makeCodelet MuxCpu ''IyokanMUX'' [STARPU_W, STARPU_R, STARPU_R, STARPU_R])"

text \<open>The CMUX codelets get their CUDA function only when TANGOR_EXPERIMENTAL_CUDA_CMUX is 1.\<close>

definition cuda_cmux_enabled :: "bool \<Rightarrow> string option \<Rightarrow> bool" where
  "cuda_cmux_enabled cuf enableCudaCmux \<longleftrightarrow> cuf \<and> enableCudaCmux = Some ''1''"

definition cmuxFFTStarpuCodelet :: "bool \<Rightarrow> string option \<Rightarrow> 'a iy_codelet" where
  "cmuxFFTStarpuCodelet cuf var = with_cuda (cuda_cmux_enabled cuf var) CmuxCuda
     (makeCodelet CmuxCpu ''IyokanCMUXFFT'' [STARPU_W, STARPU_R, STARPU_R, STARPU_R])"

definition cmuxFFTInPlaceTrueStarpuCodelet :: "bool \<Rightarrow> string option \<Rightarrow> 'a iy_codelet" where
  "cmuxFFTInPlaceTrueStarpuCodelet cuf var = with_cuda (cuda_cmux_enabled cuf var) CmuxTrueCuda
     (makeCodelet CmuxTrueCpu ''IyokanCMUXFFTInPlaceTrue'' [STARPU_RW, STARPU_R, STARPU_R])"

definition cmuxFFTInPlaceFalseStarpuCodelet :: "bool \<Rightarrow> string option \<Rightarrow> 'a iy_codelet" where
  "cmuxFFTInPlaceFalseStarpuCodelet cuf var = with_cuda (cuda_cmux_enabled cuf var) CmuxFalseCuda
     (makeCodelet CmuxFalseCpu ''IyokanCMUXFFTInPlaceFalse'' [STARPU_RW, STARPU_R, STARPU_R])"

definition muxWoSEStarpuCodelet :: "'a iy_codelet" where
  "muxWoSEStarpuCodelet =
     makeCodelet MuxWoSECpu ''IyokanMUXwoSE'' [STARPU_W, STARPU_R, STARPU_R, STARPU_R]"

datatype IyokanBinaryGate = IyAND | IyNAND | IyANDNOT | IyOR | IyNOR | IyORNOT | IyXOR | IyXNOR

text \<open>The enumeration has no other value, so the throw after the switch is not reached.\<close>

primrec codeletFor :: "bool \<Rightarrow> 'w::len word \<Rightarrow> IyokanBinaryGate \<Rightarrow> 'w word iy_codelet" where
  "codeletFor cuf m IyAND = andCodelet cuf m"
| "codeletFor cuf m IyNAND = nandCodelet cuf m"
| "codeletFor cuf m IyANDNOT = andNotCodelet cuf m"
| "codeletFor cuf m IyOR = orCodelet cuf m"
| "codeletFor cuf m IyNOR = norCodelet cuf m"
| "codeletFor cuf m IyORNOT = orNotCodelet cuf m"
| "codeletFor cuf m IyXOR = xorCodelet cuf m"
| "codeletFor cuf m IyXNOR = xnorCodelet cuf m"

text \<open>The TFHEpp gates that the offload header redirects, and the gate each becomes.\<close>

datatype tfhepp_gate = TfHomAND | TfHomNAND | TfHomANDYN | TfHomOR | TfHomNOR | TfHomORYN
  | TfHomXOR | TfHomXNOR

primrec offload_gate :: "tfhepp_gate \<Rightarrow> IyokanBinaryGate" where
  "offload_gate TfHomAND = IyAND"
| "offload_gate TfHomNAND = IyNAND"
| "offload_gate TfHomANDYN = IyANDNOT"
| "offload_gate TfHomOR = IyOR"
| "offload_gate TfHomNOR = IyNOR"
| "offload_gate TfHomORYN = IyORNOT"
| "offload_gate TfHomXOR = IyXOR"
| "offload_gate TfHomXNOR = IyXNOR"

section \<open>Running a codelet\<close>

definition iy_run_cpu ::
  "('k \<Rightarrow> ('w::len word, 'r, 'g) iyokan_api) \<Rightarrow> 'k \<Rightarrow> nat \<Rightarrow> 'k option \<Rightarrow> 'w word iy_cpu \<Rightarrow>
   ('w word, 'r, 'g) cell list \<Rightarrow> iy_codelet_error + ('w word, 'r, 'g) cell" where
  "iy_run_cpu lib any n key f = (case f of
      BinaryCpu ca cb off \<Rightarrow> binaryCodelet lib n key ca cb off
    | NotCpu \<Rightarrow> notCodelet n
    | MuxCpu \<Rightarrow> muxCodelet lib n key
    | CmuxCpu \<Rightarrow> cmuxFFTCodelet (CMUXFFT (lib any))
    | CmuxTrueCpu \<Rightarrow> cmuxFFTInPlaceTrueCodelet (CMUXFFT (lib any))
    | CmuxFalseCpu \<Rightarrow> cmuxFFTInPlaceFalseCodelet (CMUXFFT (lib any))
    | MuxWoSECpu \<Rightarrow> muxWoSECodelet lib n key)"

definition iy_run_cuda ::
  "('w::len word, 'r, 'g) iyokan_api \<Rightarrow> nat \<Rightarrow> int \<Rightarrow> iy_cuda \<Rightarrow>
   ('w word, 'r, 'g) cell list \<Rightarrow> iy_codelet_error + ('w word, 'r, 'g) cell" where
  "iy_run_cuda api n dev f = (case f of
      BinaryCuda boot \<Rightarrow> runBinaryBootstrap (cuda0 api) n dev boot
    | MuxCuda \<Rightarrow> iyokanCufheppHomMUX (cuda0 api) n dev
    | CmuxCuda \<Rightarrow> iyokanCufheppCMUXFFT (CMUXTFHEppFFTkernel api dev)
    | CmuxTrueCuda \<Rightarrow> iyokanCufheppCMUXFFTInPlaceTrue (CMUXTFHEppFFTkernel api dev)
    | CmuxFalseCuda \<Rightarrow> iyokanCufheppCMUXFFTInPlaceFalse (CMUXTFHEppFFTkernel api dev))"

text \<open>
  The machine: the libraries by evaluation key, the key whose ring operations
  the CPU uses, the dimension and the constant of level 0, the device of a
  worker.
\<close>

record ('k, 'a, 'r, 'g) iy_machine =
  im_lib :: "'k \<Rightarrow> ('a, 'r, 'g) iyokan_api"
  im_any :: 'k
  im_n :: nat
  im_mu :: 'a
  im_devid :: "int \<Rightarrow> int"

definition iy_run ::
  "('k, 'w::len word, 'r, 'g) iy_machine \<Rightarrow> 'k option \<Rightarrow> arch \<times> int \<Rightarrow> 'w word iy_codelet \<Rightarrow>
   ('w word, 'r, 'g) cell list \<Rightarrow> iy_codelet_error + ('w word, 'r, 'g) cell" where
  "iy_run im key w c buffers =
     (if length buffers \<noteq> ic_nbuffers c then Inl BufferCount
      else (case fst w of
         STARPU_CPU \<Rightarrow> iy_run_cpu (im_lib im) (im_any im) (im_n im) key (ic_cpu c) buffers
       | STARPU_CUDA \<Rightarrow> (case ic_cuda c of
           None \<Rightarrow> Inl NoCodelet
         | Some f \<Rightarrow> rbind (deref_key key) (\<lambda>ek.
             iy_run_cuda (im_lib im ek) (im_n im) (currentCudaDevice (im_devid im) (snd w)) f buffers))))"

section \<open>Correctness of the codelets\<close>

text \<open>
  The machine meets the contracts of the libraries at level 0 for every
  evaluation key, and the CUDA CMUX kernel computes CMUXFFT whether or not its
  output overlaps an operand. \<open>sk\<close> is the secret key of an evaluation key.
\<close>

definition machine_ok ::
  "('k \<Rightarrow> 'w::len word list) \<Rightarrow> int \<Rightarrow> int \<Rightarrow> int \<Rightarrow> ('k, 'w word, 'r, 'g) iy_machine \<Rightarrow> bool" where
  "machine_ok sk B Bo M im \<longleftrightarrow>
     (\<forall>ek. kn (gates0 (im_lib im ek)) = im_n im \<and> mu (gates0 (im_lib im ek)) = im_mu im \<and>
        tfhe_contract (sk ek) B Bo M (gates0 (im_lib im ek)) \<and>
        cufhe_contract (im_n im) (sk ek) (im_mu im) B (cuda0 (im_lib im ek)) \<and>
        CMUXFFT (im_lib im ek) = CMUXFFT (im_lib im (im_any im)) \<and>
        (\<forall>dev out. CMUXTFHEppFFTkernel (im_lib im ek) dev out = CMUXFFT (im_lib im ek)))"

text \<open>A buffer that holds a level-0 sample for a bit.\<close>

definition holds ::
  "('k \<Rightarrow> 'w::len word list) \<Rightarrow> int \<Rightarrow> ('k, 'w word, 'r, 'g) iy_machine \<Rightarrow> 'k \<Rightarrow> bool \<Rightarrow>
   ('w word, 'r, 'g) cell \<Rightarrow> bool" where
  "holds sk B im ek x c \<longleftrightarrow> (\<exists>ws. c = TLWECell ws \<and> encodes (im_n im) (sk ek) (im_mu im) B x ws)"

definition is_tlwe :: "nat \<Rightarrow> ('a, 'r, 'g) cell \<Rightarrow> bool" where
  "is_tlwe n c \<longleftrightarrow> (\<exists>ws. c = TLWECell ws \<and> length ws = Suc n)"

primrec gate2_fn :: "IyokanBinaryGate \<Rightarrow> bool \<Rightarrow> bool \<Rightarrow> bool" where
  "gate2_fn IyAND = (\<lambda>a b. a \<and> b)"
| "gate2_fn IyNAND = (\<lambda>a b. \<not> (a \<and> b))"
| "gate2_fn IyANDNOT = (\<lambda>a b. a \<and> \<not> b)"
| "gate2_fn IyOR = (\<lambda>a b. a \<or> b)"
| "gate2_fn IyNOR = (\<lambda>a b. \<not> (a \<or> b))"
| "gate2_fn IyORNOT = (\<lambda>a b. a \<or> \<not> b)"
| "gate2_fn IyXOR = (\<lambda>a b. a \<noteq> b)"
| "gate2_fn IyXNOR = (\<lambda>a b. a = b)"

primrec tfhepp_fn :: "tfhepp_gate \<Rightarrow> bool \<Rightarrow> bool \<Rightarrow> bool" where
  "tfhepp_fn TfHomAND = (\<lambda>a b. a \<and> b)"
| "tfhepp_fn TfHomNAND = (\<lambda>a b. \<not> (a \<and> b))"
| "tfhepp_fn TfHomANDYN = (\<lambda>a b. a \<and> \<not> b)"
| "tfhepp_fn TfHomOR = (\<lambda>a b. a \<or> b)"
| "tfhepp_fn TfHomNOR = (\<lambda>a b. \<not> (a \<or> b))"
| "tfhepp_fn TfHomORYN = (\<lambda>a b. a \<or> \<not> b)"
| "tfhepp_fn TfHomXOR = (\<lambda>a b. a \<noteq> b)"
| "tfhepp_fn TfHomXNOR = (\<lambda>a b. a = b)"

lemma load_tlwe_encodes [simp]: "encodes n key m B x ws \<Longrightarrow> load_tlwe n (TLWECell ws) = Inr ws"
  by (simp add: load_tlwe_def encodes_def)

lemma store_tlwe_same:
  "is_tlwe n b0 \<Longrightarrow> length ws = Suc n \<Longrightarrow> store_tlwe n ws b0 = Inr (TLWECell ws)"
  by (auto simp: store_tlwe_def is_tlwe_def)

lemma holds_is_tlwe: "holds sk B im ek x c \<Longrightarrow> is_tlwe (im_n im) c"
  by (auto simp: holds_def is_tlwe_def encodes_def)

lemma machine_okD:
  assumes "machine_ok sk B Bo M im"
  shows "kn (gates0 (im_lib im ek)) = im_n im" "mu (gates0 (im_lib im ek)) = im_mu im"
    "tfhe_contract (sk ek) B Bo M (gates0 (im_lib im ek))"
    "cufhe_contract (im_n im) (sk ek) (im_mu im) B (cuda0 (im_lib im ek))"
    "CMUXFFT (im_lib im ek) = CMUXFFT (im_lib im (im_any im))"
    "CMUXTFHEppFFTkernel (im_lib im ek) dev out = CMUXFFT (im_lib im ek)"
  using assms by (auto simp: machine_ok_def)

text \<open>The table of the two-input codelets, with the constants of each.\<close>

primrec gate2_row :: "IyokanBinaryGate \<Rightarrow> int \<times> int \<times> int \<times> bootstrap2 \<times> string" where
  "gate2_row IyAND = (1, 1, - 1, AndBootstrap, ''andCodelet'')"
| "gate2_row IyNAND = (- 1, - 1, 1, NandBootstrap, ''nandCodelet'')"
| "gate2_row IyANDNOT = (1, - 1, - 1, AndYNBootstrap, ''andNotCodelet'')"
| "gate2_row IyOR = (1, 1, 1, OrBootstrap, ''orCodelet'')"
| "gate2_row IyNOR = (- 1, - 1, - 1, NorBootstrap, ''norCodelet'')"
| "gate2_row IyORNOT = (1, - 1, 1, OrYNBootstrap, ''orNotCodelet'')"
| "gate2_row IyXOR = (2, 2, 2, XorBootstrap, ''xorCodelet'')"
| "gate2_row IyXNOR = (- 2, - 2, - 2, XnorBootstrap, ''xnorCodelet'')"

lemmas iy_binary_defs = andCodelet_def nandCodelet_def andNotCodelet_def orCodelet_def norCodelet_def
  orNotCodelet_def xorCodelet_def xnorCodelet_def

lemma codeletFor_row:
  assumes "gate2_row g = (ca, cb, off, boot, nm)"
  shows "codeletFor cuf m g = binary_codelet cuf nm ca cb (word_of_int off * m) boot"
    and "gate_constants_ok ca cb off (gate2_fn g)" and "bootstrap2_fn boot = gate2_fn g"
  using assms codelet_constants [simplified]
  by (cases g; auto simp: iy_binary_defs)+

lemma binary_codelet_correct:
  assumes im: "machine_ok sk B Bo M im" and row: "gate2_row g = (ca, cb, off, boot, nm)"
    and w: "fst w \<in> set (ic_where (codeletFor cuf (im_mu im) g))"
    and b0: "is_tlwe (im_n im) b0" and a: "holds sk B im ek x a" and b: "holds sk B im ek y b"
  shows "\<exists>r. iy_run im (Some ek) w (codeletFor cuf (im_mu im) g) [b0, a, b] = Inr r \<and>
           holds sk B im ek (gate2_fn g x y) r"
proof -
  obtain wa wb where wa: "a = TLWECell wa" "encodes (im_n im) (sk ek) (im_mu im) B x wa"
    and wb: "b = TLWECell wb" "encodes (im_n im) (sk ek) (im_mu im) B y wb"
    using a b by (auto simp: holds_def)
  note okD = machine_okD [OF im, of ek] and row' = codeletFor_row [OF row]
  show ?thesis
  proof (cases "fst w")
    case STARPU_CPU
    let ?r = "HomGate (gates0 (im_lib im ek)) ca cb (word_of_int off * im_mu im) wa wb"
    have "encodes (im_n im) (sk ek) (im_mu im) Bo (gate2_fn g x y) ?r"
      using linear_gate_correct [OF _ _ row'(2) wa(2) wb(2), where homgate = "HomGate (gates0 (im_lib im ek))"]
        okD(1-3) by (auto simp: tfhe_contract_def)
    moreover have "Bo \<le> B" using okD(3) by (auto simp: tfhe_contract_def)
    ultimately have r: "encodes (im_n im) (sk ek) (im_mu im) B (gate2_fn g x y) ?r"
      by (rule encodes_mono)
    have "iy_run im (Some ek) w (codeletFor cuf (im_mu im) g) [b0, a, b] = Inr (TLWECell ?r)"
      using STARPU_CPU wa wb b0 r encodes_length [OF r]
      by (simp add: row'(1) iy_run_def binary_codelet_def with_cuda_def addCudaImplementation_def
          makeCodelet_def iy_run_cpu_def binaryCodelet_def deref_key_def store_tlwe_same)
    with r show ?thesis by (auto simp: holds_def)
  next
    case STARPU_CUDA
    then have cuf: "cuf"
      using w by (auto simp: row'(1) binary_codelet_def with_cuda_def makeCodelet_def split: if_splits)
    let ?r = "Bootstrap2 (cuda0 (im_lib im ek)) boot (currentCudaDevice (im_devid im) (snd w)) wa wb"
    have r: "encodes (im_n im) (sk ek) (im_mu im) B (gate2_fn g x y) ?r"
      using okD(4) wa(2) wb(2) unfolding row'(3) [symmetric] cufhe_contract_def by blast
    have "iy_run im (Some ek) w (codeletFor cuf (im_mu im) g) [b0, a, b] = Inr (TLWECell ?r)"
      using STARPU_CUDA cuf wa wb b0 r encodes_length [OF r]
      by (simp add: row'(1) iy_run_def binary_codelet_def with_cuda_def addCudaImplementation_def
          makeCodelet_def iy_run_cuda_def runBinaryBootstrap_def deref_key_def store_tlwe_same)
    with r show ?thesis by (auto simp: holds_def)
  qed
qed

lemma not_iy_codelet_correct:
  assumes im: "machine_ok sk B Bo M im" and w: "fst w \<in> set (ic_where (notStarpuCodelet :: 'w word iy_codelet))"
    and b0: "is_tlwe (im_n im) b0" and a: "holds sk B im ek x (a :: ('w::len word, 'r, 'g) cell)"
  shows "\<exists>r. iy_run im key w notStarpuCodelet [b0, a] = Inr r \<and> holds sk B im ek (\<not> x) r"
proof -
  obtain wa where wa: "a = TLWECell wa" "encodes (im_n im) (sk ek) (im_mu im) B x wa"
    using a by (auto simp: holds_def)
  have "level_ok (im_mu im) B M"
    using machine_okD(2,3) [OF im, of ek] by (simp add: tfhe_contract_def)
  then have "B < 2 ^ (LENGTH('w) - 1)" by (rule level_noise(2))
  from encodes_neg [OF wa(2) this] have "encodes (im_n im) (sk ek) (im_mu im) B (\<not> x) (map uminus wa)"
    by (simp add: tlwe_neg_def)
  moreover have "fst w = STARPU_CPU"
    using w by (simp add: notStarpuCodelet_def makeCodelet_def)
  ultimately show ?thesis
    using wa b0 encodes_length [OF wa(2)]
    by (simp add: iy_run_def notStarpuCodelet_def makeCodelet_def iy_run_cpu_def notCodelet_def
        store_tlwe_same holds_def)
qed

lemma mux_iy_codelet_correct:
  assumes im: "machine_ok sk B Bo M im"
    and w: "fst w \<in> set (ic_where (muxStarpuCodelet cuf :: 'w word iy_codelet))"
    and b0: "is_tlwe (im_n im) b0" and s: "holds sk B im ek x s" and a: "holds sk B im ek y a"
    and b: "holds sk B im ek z (b :: ('w::len word, 'r, 'g) cell)"
  shows "\<exists>r. iy_run im (Some ek) w (muxStarpuCodelet cuf) [b0, s, a, b] = Inr r \<and>
           holds sk B im ek (if x then y else z) r"
proof -
  obtain ws wa wb where ws: "s = TLWECell ws" "encodes (im_n im) (sk ek) (im_mu im) B x ws"
    and wa: "a = TLWECell wa" "encodes (im_n im) (sk ek) (im_mu im) B y wa"
    and wb: "b = TLWECell wb" "encodes (im_n im) (sk ek) (im_mu im) B z wb"
    using s a b by (auto simp: holds_def)
  note okD = machine_okD [OF im, of ek]
  have cpu: "encodes (im_n im) (sk ek) (im_mu im) B (if x then y else z)
      (HomMUX (gates0 (im_lib im ek)) ws wa wb)"
    using tfhe_contract_mux(1) [OF okD(3)] ws(2) wa(2) wb(2) unfolding okD(1,2) by blast
  have cuda: "encodes (im_n im) (sk ek) (im_mu im) B (if x then y else z)
      (MuxBootstrap (cuda0 (im_lib im ek)) dev ws wa wb)" for dev
    using cufhe_contract_mux(1) [OF okD(4)] ws(2) wa(2) wb(2) by blast
  show ?thesis
  proof (cases "fst w")
    case STARPU_CPU
    then show ?thesis
      using ws wa wb b0 cpu encodes_length [OF cpu]
      by (simp add: iy_run_def muxStarpuCodelet_def with_cuda_def addCudaImplementation_def
          makeCodelet_def iy_run_cpu_def muxCodelet_def deref_key_def store_tlwe_same holds_def)
  next
    case STARPU_CUDA
    then have cuf: "cuf"
      using w by (auto simp: muxStarpuCodelet_def with_cuda_def makeCodelet_def split: if_splits)
    then show ?thesis
      using STARPU_CUDA ws wa wb b0 cuda encodes_length [OF cuda]
      by (simp add: iy_run_def muxStarpuCodelet_def with_cuda_def addCudaImplementation_def
          makeCodelet_def iy_run_cuda_def iyokanCufheppHomMUX_def deref_key_def store_tlwe_same holds_def)
  qed
qed

text \<open>The CMUX codelets on ring samples; a CUDA worker needs the key that cuFHEpp was loaded with.\<close>

abbreviation cmux :: "('k, 'w::len word, 'r, 'g) iy_machine \<Rightarrow> 'g \<Rightarrow> 'r \<Rightarrow> 'r \<Rightarrow> 'r" where
  "cmux im \<equiv> CMUXFFT (im_lib im (im_any im))"

lemmas cmux_codelet_defs = cmuxFFTStarpuCodelet_def cmuxFFTInPlaceTrueStarpuCodelet_def
  cmuxFFTInPlaceFalseStarpuCodelet_def

lemma cmux_codelets_run:
  assumes im: "machine_ok sk B Bo M im"
    and w: "fst w = STARPU_CPU \<or> fst w = STARPU_CUDA \<and> cuda_cmux_enabled cuf var \<and> key \<noteq> None"
  shows "iy_run im key w (cmuxFFTStarpuCodelet cuf var) [TRLWECell r, TRGSWCell g, TRLWECell t, TRLWECell f] =
           Inr (TRLWECell (cmux im g t f))"
    and "iy_run im key w (cmuxFFTInPlaceTrueStarpuCodelet cuf var) [TRLWECell t, TRGSWCell g, TRLWECell f] =
           Inr (TRLWECell (cmux im g t f))"
    and "iy_run im key w (cmuxFFTInPlaceFalseStarpuCodelet cuf var) [TRLWECell f, TRGSWCell g, TRLWECell t] =
           Inr (TRLWECell (cmux im g t f))"
proof -
  note defs = iy_run_def cmux_codelet_defs with_cuda_def addCudaImplementation_def makeCodelet_def
    iy_run_cpu_def iy_run_cuda_def cmuxFFTCodelet_def cmuxFFTInPlaceTrueCodelet_def
    cmuxFFTInPlaceFalseCodelet_def iyokanCufheppCMUXFFT_def iyokanCufheppCMUXFFTInPlaceTrue_def
    iyokanCufheppCMUXFFTInPlaceFalse_def load_trlwe_def load_trgsw_def deref_key_def
  have kern: "CMUXTFHEppFFTkernel (im_lib im ek) dev out = cmux im" for ek dev out
    using machine_okD(5,6) [OF im] by metis
  show "iy_run im key w (cmuxFFTStarpuCodelet cuf var) [TRLWECell r, TRGSWCell g, TRLWECell t, TRLWECell f] =
      Inr (TRLWECell (cmux im g t f))"
    using w by (auto simp: defs kern)
  show "iy_run im key w (cmuxFFTInPlaceTrueStarpuCodelet cuf var) [TRLWECell t, TRGSWCell g, TRLWECell f] =
      Inr (TRLWECell (cmux im g t f))"
    using w by (auto simp: defs kern)
  show "iy_run im key w (cmuxFFTInPlaceFalseStarpuCodelet cuf var) [TRLWECell f, TRGSWCell g, TRLWECell t] =
      Inr (TRLWECell (cmux im g t f))"
    using w by (auto simp: defs kern)
qed

section \<open>A concrete machine\<close>

definition sample_machine :: "(nat, 32 word, nat, bool) iy_machine" where
  "sample_machine =
     \<lparr>im_lib = (\<lambda>_. \<lparr>gates0 = tfhe (sample_platform None), cuda0 = cufhe (sample_platform None),
        CMUXFFT = (\<lambda>g t f. if g then t else f),
        HomMUXwoSE = (\<lambda>s a b. if (if exact_bit s then exact_bit a else exact_bit b) then 1 else 0),
        CMUXTFHEppFFTkernel = (\<lambda>dev out g t f. if g then t else f)\<rparr>),
      im_any = 0, im_n = 0, im_mu = 2 ^ 29, im_devid = (\<lambda>w. w - 1)\<rparr>"

lemma sample_machine_simps [simp]:
  "im_n sample_machine = 0" "im_mu sample_machine = 536870912"
  "cmux sample_machine = (\<lambda>g t f. if g then t else f)"
  by (simp_all add: sample_machine_def)

lemma sample_machine_ok: "machine_ok (\<lambda>_. []) 0 0 1 sample_machine"
proof -
  have "tfhe_contract [] 0 0 1 (tfhe (sample_platform None))"
    and "cufhe_contract 0 [] 536870912 0 (cufhe (sample_platform None))"
    using sample_platform_ok(1) by (auto simp: platform_ok_def)
  then show ?thesis by (simp add: machine_ok_def sample_machine_def)
qed

lemma sample_holds: "holds (\<lambda>_. []) 0 sample_machine ek x c \<longleftrightarrow> c = TLWECell (exact_sample x)"
  by (auto simp: holds_def encodes_exact)

section \<open>Properties\<close>

text \<open>C13. Every two-input TFHEpp gate that the offload header replaces is evaluated by a codelet that
  computes that same gate, on CPU workers with the linear combination of its template arguments and
  on CUDA workers with the bootstrapping it is given, within the noise bound.\<close>

theorem offloaded_gates_correct:
  assumes "machine_ok sk B Bo M im"
    and "fst w \<in> set (ic_where (codeletFor cuf (im_mu im) (offload_gate g)))"
    and "is_tlwe (im_n im) b0" and "holds sk B im ek x a" and "holds sk B im ek y b"
  shows "\<exists>r. iy_run im (Some ek) w (codeletFor cuf (im_mu im) (offload_gate g)) [b0, a, b] = Inr r \<and>
           holds sk B im ek (tfhepp_fn g x y) r"
proof -
  have fn: "gate2_fn (offload_gate g) = tfhepp_fn g" by (cases g) simp_all
  obtain ca cb off boot nm where row: "gate2_row (offload_gate g) = (ca, cb, off, boot, nm)"
    by (metis surj_pair)
  show ?thesis
    using binary_codelet_correct [OF assms(1) row assms(2-5)] unfolding fn .
qed

theorem offloaded_gates_correct_witness:
  "\<exists>r. iy_run sample_machine (Some 0) (STARPU_CUDA, 5) (codeletFor True (2 ^ 29) (offload_gate TfHomANDYN))
      [TLWECell [0], TLWECell (exact_sample True), TLWECell (exact_sample False)] = Inr r \<and>
      r = TLWECell (exact_sample True)"
  using offloaded_gates_correct [OF sample_machine_ok, of "(STARPU_CUDA, 5)" True TfHomANDYN
      "TLWECell [0]" 0 True "TLWECell (exact_sample True)" False "TLWECell (exact_sample False)"]
  by (simp add: sample_holds is_tlwe_def andNotCodelet_def binary_codelet_def with_cuda_def
      addCudaImplementation_def makeCodelet_def)

text \<open>The level-0 NOT is the exact negation and needs no evaluation key; the level-0 MUX takes its
  second operand when the first is set and the third otherwise.\<close>

lemma iyokan_not_and_mux_correct:
  assumes "machine_ok sk B Bo M im" and "is_tlwe (im_n im) b0"
    and "holds sk B im ek x s" and "holds sk B im ek y a" and "holds sk B im ek z b"
    and "fst w \<in> set (ic_where (muxStarpuCodelet cuf :: 'w::len word iy_codelet))"
  shows "(\<exists>r. iy_run im None (STARPU_CPU, n) notStarpuCodelet [b0, s] = Inr r \<and> holds sk B im ek (\<not> x) r) \<and>
         (\<exists>r. iy_run im (Some ek) w (muxStarpuCodelet cuf :: 'w word iy_codelet) [b0, s, a, b] = Inr r \<and>
            holds sk B im ek (if x then y else z) r)"
  using not_iy_codelet_correct [OF assms(1) _ assms(2,3), of "(STARPU_CPU, n)" None]
    mux_iy_codelet_correct [OF assms(1,6,2,3,4,5)]
  by (simp add: notStarpuCodelet_def makeCodelet_def)

lemma iyokan_not_and_mux_correct_witness:
  "\<exists>r. iy_run sample_machine None (STARPU_CPU, 2) notStarpuCodelet
      [TLWECell [0], TLWECell (exact_sample True)] = Inr r \<and> r = TLWECell (exact_sample False)"
  using iyokan_not_and_mux_correct [OF sample_machine_ok, of "TLWECell [0]" 0 True
      "TLWECell (exact_sample True)" True "TLWECell (exact_sample True)" True
      "TLWECell (exact_sample True)" "(STARPU_CPU, 0)" False 2]
  by (simp add: sample_holds is_tlwe_def muxStarpuCodelet_def with_cuda_def makeCodelet_def)



end
