(* ===== verification/Iyokan_Runtime.thy ===== *)
theory Iyokan_Runtime
  imports Iyokan_Codelets Dataflow_Tasks
begin

text \<open>
  The runtime of the KVSP evaluator (the second half of
  src/src/iyokan-starpu-codelets.cpp): the life cycle of the StarPU backend, the
  registry of persistent data handles, task submission with completion
  callbacks, the capture of asynchronous tasks, and the synchronous gate calls.
  The state of the backend, of StarPU and of host memory is one record; the
  calls of one client thread, the completion of tasks by StarPU and the wake-up
  of a blocked call are the steps of a transition relation.
\<close>

section \<open>State\<close>

datatype iyokan_error = InitFailed | TwoKeys | AlreadyConfigured | SubmitFailed | RamSubmitFailed
  | RamMuxSubmitFailed | SyncFailed | TlweMarkFailed | VariableMarkFailed | NestedCapture
  | EndedInactiveCapture | SynchronizedInactiveCapture
  | StarpuDown | DeadHandle

text \<open>
  The last two are no exceptions of the source: StarPU is called while it is not
  running, or with a handle that has been unregistered.
\<close>

text \<open>How an address was registered: starpu_vector_data_register or starpu_variable_data_register.\<close>

datatype iface = VectorIface nat | VariableIface nat

record handle_info =
  hi_addr :: nat
  hi_iface :: iface
  hi_live :: bool

text \<open>A submitted task, and the state object IyokanStarpuTask::State that it shares with the client.\<close>

record 'a iy_task =
  it_codelet :: "'a iy_codelet"
  it_handles :: "(nat \<times> access_mode) list"

record task_state =
  ts_finished :: bool
  ts_error :: int
  ts_output :: nat

text \<open>The configuration passed to starpu_init; None leaves StarPU's default.\<close>

record starpu_config =
  ncpus :: "int option"
  ncuda :: int
  sched_policy_name :: "string option"

text \<open>The call that the client thread is blocked in.\<close>

datatype blocked = WaitForTask nat | SyncOutput nat | AcquireTlwe nat | AcquireVariable nat | WaitForAll

record ('a, 'r, 'g) backend =
  currentEvalKey :: "nat option"
  starpuInitOnce :: bool
  starpuInitStatus :: int
  starpuRunning :: bool
  configuredCpuWorkers :: uint
  configuredCudaDevices :: uint
  persistentHandles :: "nat \<rightharpoonup> nat"
  persistentVariableHandles :: "nat \<rightharpoonup> nat"
  captureActive :: bool
  capturedTask :: "nat option"
  cufheppInitialized :: bool
  environ :: "string \<rightharpoonup> string"
  used_config :: "starpu_config option"
  handle_table :: "handle_info list"
  tasks :: "'a iy_task list"
  states :: "task_state list"
  callback_boxes :: "nat list"
  attempts :: nat
  data :: "nat \<Rightarrow> ('a, 'r, 'g) cell"
  host :: "nat \<Rightarrow> ('a, 'r, 'g) cell"
  blocked_in :: "blocked option"

text \<open>
  What StarPU, CUDA and the build answer: the status of starpu_init, of the n-th
  starpu_task_insert and of starpu_data_acquire on a handle, the CUDA workers
  and devices, USE_CUFHEPP, TANGOR_STARPU_PROFILE_DEFAULT, the value of
  TANGOR_EXPERIMENTAL_CUDA_CMUX, and the sizes of the C++ types.
\<close>

record 'a iy_env =
  se_init :: "starpu_config \<Rightarrow> int"
  se_insert :: "nat \<Rightarrow> int"
  se_acquire :: "nat \<Rightarrow> int"
  se_cuda_workers :: nat
  se_cuda_devices :: "bool \<times> int"
  se_cufhepp :: bool
  se_profile :: bool
  se_cuda_cmux :: "string option"
  se_tlwe_size :: nat
  se_trlwe_bytes :: nat
  se_trgsw_bytes :: nat
  se_mu :: 'a

type_synonym ('a, 'r, 'g, 'x) iy_act = "(('a, 'r, 'g) backend, iyokan_error, 'x) act"

section \<open>Life cycle\<close>

definition setenv0 :: "string \<Rightarrow> string \<Rightarrow> (string \<rightharpoonup> string) \<Rightarrow> string \<rightharpoonup> string" where
  "setenv0 name value e = (if e name = None then e(name \<mapsto> value) else e)"

text \<open>The body of the std::call_once in ensureStarpuRuntime.\<close>

definition init_starpu :: "'a iy_env \<Rightarrow> ('a, 'r, 'g) backend \<Rightarrow> ('a, 'r, 'g) backend" where
  "init_starpu env s =
     (let e1 = (if se_profile env
                then fold (\<lambda>v. setenv0 v ''1'') [''STARPU_PROFILING'', ''STARPU_WORKER_STATS'',
                       ''STARPU_BUS_STATS'', ''STARPU_PROFILING_TASK'', ''STARPU_FXT_TRACE''] (environ s)
                else environ s);
          e2 = (if 0 < configuredCudaDevices s then setenv0 ''STARPU_NWORKER_PER_CUDA'' ''32'' e1 else e1);
          config = \<lparr>ncpus = (if 0 < configuredCpuWorkers s then Some (sint (configuredCpuWorkers s)) else None),
                    ncuda = sint (configuredCudaDevices s),
                    sched_policy_name = (if e2 ''STARPU_SCHED'' = None then Some ''dmdas'' else None)\<rparr>;
          status = se_init env config
      in s\<lparr>starpuInitOnce := True, environ := e2, used_config := Some config,
           starpuInitStatus := status, starpuRunning := (if status = 0 then True else starpuRunning s)\<rparr>)"

definition ensureStarpuRuntime :: "'a iy_env \<Rightarrow> ('a, 'r, 'g, unit) iy_act" where
  "ensureStarpuRuntime env s =
     (let s1 = (if starpuInitOnce s then s else init_starpu env s)
      in if starpuInitStatus s1 \<noteq> 0 then (Inl InitFailed, s1) else (Inr (), s1))"

definition initializeIyokanCufhepp :: "'a iy_env \<Rightarrow> ('a, 'r, 'g) backend \<Rightarrow> ('a, 'r, 'g) backend" where
  "initializeIyokanCufhepp env s =
     (if cufheppInitialized s then s
      else if se_cuda_workers env = 0 then s
      else if \<not> fst (se_cuda_devices env) \<or> snd (se_cuda_devices env) = 0 then s
      else s\<lparr>cufheppInitialized := True\<rparr>)"

definition cleanupIyokanCufhepp :: "('a, 'r, 'g) backend \<Rightarrow> ('a, 'r, 'g) backend" where
  "cleanupIyokanCufhepp s = (if \<not> cufheppInitialized s then s else s\<lparr>cufheppInitialized := False\<rparr>)"

definition ensureStarpu :: "'a iy_env \<Rightarrow> nat \<Rightarrow> ('a, 'r, 'g, unit) iy_act" where
  "ensureStarpu env evalKey =
     abind (ensureStarpuRuntime env) (\<lambda>_ s.
       (case currentEvalKey s of
          None \<Rightarrow> (let s1 = s\<lparr>currentEvalKey := Some evalKey\<rparr>
                  in (Inr (), if se_cufhepp env then initializeIyokanCufhepp env s1 else s1))
        | Some k \<Rightarrow>
            if k \<noteq> evalKey then (Inl TwoKeys, s)
            else (Inr (), if se_cufhepp env then initializeIyokanCufhepp env s else s)))"

definition configureIyokanStarpu :: "uint \<Rightarrow> uint \<Rightarrow> ('a, 'r, 'g, unit) iy_act" where
  "configureIyokanStarpu cpuWorkers cudaDevices s =
     (if starpuRunning s \<or> starpuInitStatus s \<noteq> - 1 then (Inl AlreadyConfigured, s)
      else (Inr (), s\<lparr>configuredCpuWorkers := cpuWorkers, configuredCudaDevices := cudaDevices\<rparr>))"

definition prepareIyokanStarpu :: "'a iy_env \<Rightarrow> nat \<Rightarrow> ('a, 'r, 'g, unit) iy_act" where
  "prepareIyokanStarpu env evalKey = ensureStarpu env evalKey"

text \<open>
  shutdownIyokanStarpu up to starpu_task_wait_for_all, and the rest of it once
  all tasks are done. Unregistering without coherency leaves host memory alone.
\<close>

definition shutdownIyokanStarpu :: "('a, 'r, 'g, unit) iy_act" where
  "shutdownIyokanStarpu s =
     (if \<not> starpuRunning s then (Inr (), s) else (Inr (), s\<lparr>blocked_in := Some WaitForAll\<rparr>))"

definition unregister_all :: "('a, 'r, 'g) backend \<Rightarrow> ('a, 'r, 'g) backend" where
  "unregister_all s =
     s\<lparr>handle_table := map (\<lambda>h. if h \<in> ran (persistentHandles s) \<union> ran (persistentVariableHandles s)
                                 then (handle_table s ! h)\<lparr>hi_live := False\<rparr> else handle_table s ! h)
                          [0..<length (handle_table s)],
       persistentHandles := Map.empty, persistentVariableHandles := Map.empty\<rparr>"

definition finish_shutdown :: "'a iy_env \<Rightarrow> ('a, 'r, 'g) backend \<Rightarrow> ('a, 'r, 'g) backend" where
  "finish_shutdown env s =
     (let s1 = unregister_all s;
          s2 = (if se_cufhepp env then cleanupIyokanCufhepp s1 else s1)
      in s2\<lparr>currentEvalKey := None, starpuRunning := False\<rparr>)"

section \<open>Persistent handles\<close>

text \<open>Registration takes the current host contents as the data of the new handle.\<close>

definition register_handle :: "nat \<Rightarrow> iface \<Rightarrow> ('a, 'r, 'g, nat) iy_act" where
  "register_handle addr i s =
     (if \<not> starpuRunning s then (Inl StarpuDown, s)
      else (let h = length (handle_table s)
            in (Inr h, s\<lparr>handle_table := handle_table s @ [\<lparr>hi_addr = addr, hi_iface = i, hi_live = True\<rparr>],
                         data := (data s)(h := host s addr)\<rparr>)))"

definition persistentHandleFor :: "'a iy_env \<Rightarrow> nat \<Rightarrow> ('a, 'r, 'g, nat) iy_act" where
  "persistentHandleFor env addr s = (case persistentHandles s addr of
      Some h \<Rightarrow> (Inr h, s)
    | None \<Rightarrow> abind (register_handle addr (VectorIface (se_tlwe_size env))) (\<lambda>h.
                abind (amodify (\<lambda>s. s\<lparr>persistentHandles := (persistentHandles s)(addr \<mapsto> h)\<rparr>)) (\<lambda>_.
                areturn h)) s)"

definition persistentVariableHandleFor :: "nat \<Rightarrow> nat \<Rightarrow> ('a, 'r, 'g, nat) iy_act" where
  "persistentVariableHandleFor bytes addr s = (case persistentVariableHandles s addr of
      Some h \<Rightarrow> (Inr h, s)
    | None \<Rightarrow> abind (register_handle addr (VariableIface bytes)) (\<lambda>h.
                abind (amodify (\<lambda>s. s\<lparr>persistentVariableHandles := (persistentVariableHandles s)(addr \<mapsto> h)\<rparr>)) (\<lambda>_.
                areturn h)) s)"

section \<open>Submission and completion\<close>

text \<open>
  starpu_task_insert with the callback box: on failure the box is deleted and the
  exception \<open>err\<close> is thrown.
\<close>

definition insert_task ::
  "'a iy_env \<Rightarrow> iyokan_error \<Rightarrow> 'a iy_codelet \<Rightarrow> (nat \<times> access_mode) list \<Rightarrow> ('a, 'r, 'g, nat) iy_act" where
  "insert_task env err codelet handles s =
     (if \<not> starpuRunning s then (Inl StarpuDown, s)
      else (let k = length (tasks s); s1 = s\<lparr>attempts := Suc (attempts s)\<rparr>
            in if se_insert env (attempts s) \<noteq> 0 then (Inl err, s1)
               else (Inr k, s1\<lparr>tasks := tasks s @ [\<lparr>it_codelet = codelet, it_handles = handles\<rparr>],
                        states := states s @ [\<lparr>ts_finished = False, ts_error = 0,
                                               ts_output = fst (hd handles)\<rparr>],
                        callback_boxes := callback_boxes s @ [k]\<rparr>)))"

definition submitAsync :: "'a iy_env \<Rightarrow> 'a iy_codelet \<Rightarrow> nat list \<Rightarrow> ('a, 'r, 'g, nat) iy_act" where
  "submitAsync env codelet values =
     abind (amap (persistentHandleFor env) values) (\<lambda>handles.
     insert_task env SubmitFailed codelet
       (zip handles (STARPU_W # replicate (length handles - 1) STARPU_R)))"

definition submitVariableAsync ::
  "'a iy_env \<Rightarrow> 'a iy_codelet \<Rightarrow> (nat \<times> nat) list \<Rightarrow> access_mode list \<Rightarrow> ('a, 'r, 'g, nat) iy_act" where
  "submitVariableAsync env codelet values ms =
     abind (amap (\<lambda>(addr, bytes). persistentVariableHandleFor bytes addr) values) (\<lambda>handles.
     insert_task env RamSubmitFailed codelet (zip handles ms))"

definition submitMuxWoSEAsync ::
  "'a iy_env \<Rightarrow> nat \<Rightarrow> nat \<Rightarrow> nat \<Rightarrow> nat \<Rightarrow> ('a, 'r, 'g, nat) iy_act" where
  "submitMuxWoSEAsync env out sel whenTrue whenFalse =
     abind (persistentVariableHandleFor (se_trlwe_bytes env) out) (\<lambda>outputHandle.
     abind (amap (persistentHandleFor env) [sel, whenTrue, whenFalse]) (\<lambda>inputHandles.
     insert_task env RamMuxSubmitFailed muxWoSEStarpuCodelet
       ((outputHandle, STARPU_W) # map (\<lambda>h. (h, STARPU_R)) inputHandles)))"

definition captureTask :: "nat \<Rightarrow> ('a, 'r, 'g) backend \<Rightarrow> ('a, 'r, 'g) backend" where
  "captureTask t s = (if \<not> captureActive s then s else s\<lparr>capturedTask := Some t\<rparr>)"

text \<open>Both ends of a gate call: hand the task to the capture, or wait for it.\<close>

definition deliver :: "nat \<Rightarrow> ('a, 'r, 'g, unit) iy_act" where
  "deliver t s =
     (if captureActive s then (Inr (), captureTask t s)
      else (Inr (), s\<lparr>blocked_in := Some (WaitForTask t)\<rparr>))"

definition runIyokanStarpuBinaryGate ::
  "'w::len word iy_env \<Rightarrow> IyokanBinaryGate \<Rightarrow> nat \<Rightarrow> nat \<Rightarrow> nat \<Rightarrow> nat \<Rightarrow> ('w word, 'r, 'g, unit) iy_act" where
  "runIyokanStarpuBinaryGate env gate out left right evalKey =
     abind (ensureStarpu env evalKey) (\<lambda>_.
     abind (submitAsync env (codeletFor (se_cufhepp env) (se_mu env) gate) [out, left, right]) deliver)"

definition runIyokanStarpuNot :: "'a iy_env \<Rightarrow> nat \<Rightarrow> nat \<Rightarrow> ('a, 'r, 'g, unit) iy_act" where
  "runIyokanStarpuNot env out input =
     abind (ensureStarpuRuntime env) (\<lambda>_.
     abind (submitAsync env notStarpuCodelet [out, input]) deliver)"

definition runIyokanStarpuMux ::
  "'a iy_env \<Rightarrow> nat \<Rightarrow> nat \<Rightarrow> nat \<Rightarrow> nat \<Rightarrow> nat \<Rightarrow> ('a, 'r, 'g, unit) iy_act" where
  "runIyokanStarpuMux env out sel whenTrue whenFalse evalKey =
     abind (ensureStarpu env evalKey) (\<lambda>_.
     abind (submitAsync env (muxStarpuCodelet (se_cufhepp env)) [out, sel, whenTrue, whenFalse]) deliver)"

definition runIyokanStarpuCMUXFFT ::
  "'a iy_env \<Rightarrow> nat \<Rightarrow> nat \<Rightarrow> nat \<Rightarrow> nat \<Rightarrow> ('a, 'r, 'g, unit) iy_act" where
  "runIyokanStarpuCMUXFFT env out sel whenTrue whenFalse =
     (let r = se_trlwe_bytes env; g = se_trgsw_bytes env in
     abind (ensureStarpuRuntime env) (\<lambda>_.
     abind (if out = whenTrue then
              submitVariableAsync env (cmuxFFTInPlaceTrueStarpuCodelet (se_cufhepp env) (se_cuda_cmux env))
                [(out, r), (sel, g), (whenFalse, r)] [STARPU_RW, STARPU_R, STARPU_R]
            else if out = whenFalse then
              submitVariableAsync env (cmuxFFTInPlaceFalseStarpuCodelet (se_cufhepp env) (se_cuda_cmux env))
                [(out, r), (sel, g), (whenTrue, r)] [STARPU_RW, STARPU_R, STARPU_R]
            else
              submitVariableAsync env (cmuxFFTStarpuCodelet (se_cufhepp env) (se_cuda_cmux env))
                [(out, r), (sel, g), (whenTrue, r), (whenFalse, r)]
                [STARPU_W, STARPU_R, STARPU_R, STARPU_R]) deliver))"

definition runIyokanStarpuMuxWoSE ::
  "'a iy_env \<Rightarrow> nat \<Rightarrow> nat \<Rightarrow> nat \<Rightarrow> nat \<Rightarrow> nat \<Rightarrow> ('a, 'r, 'g, unit) iy_act" where
  "runIyokanStarpuMuxWoSE env out sel whenTrue whenFalse evalKey =
     abind (ensureStarpu env evalKey) (\<lambda>_.
     abind (submitMuxWoSEAsync env out sel whenTrue whenFalse) deliver)"

section \<open>Capture and host writes\<close>

definition beginIyokanStarpuCapture :: "('a, 'r, 'g, unit) iy_act" where
  "beginIyokanStarpuCapture s =
     (if captureActive s then (Inl NestedCapture, s)
      else (Inr (), s\<lparr>captureActive := True, capturedTask := None\<rparr>))"

definition endIyokanStarpuCapture :: "('a, 'r, 'g, nat option) iy_act" where
  "endIyokanStarpuCapture s =
     (if \<not> captureActive s then (Inl EndedInactiveCapture, s)
      else (Inr (capturedTask s), s\<lparr>captureActive := False, capturedTask := None\<rparr>))"

definition synchronizeIyokanStarpuCapture :: "('a, 'r, 'g, unit) iy_act" where
  "synchronizeIyokanStarpuCapture s =
     (if \<not> captureActive s then (Inl SynchronizedInactiveCapture, s)
      else (case capturedTask s of
         None \<Rightarrow> (Inr (), s)
       | Some t \<Rightarrow> (Inr (), s\<lparr>blocked_in := Some (WaitForTask t)\<rparr>)))"

text \<open>The mark functions look the address up and block in starpu_data_acquire for writing.\<close>

definition markIyokanTLWEHostWrite :: "nat \<Rightarrow> ('a, 'r, 'g, unit) iy_act" where
  "markIyokanTLWEHostWrite addr s = (case persistentHandles s addr of
      None \<Rightarrow> (Inr (), s)
    | Some h \<Rightarrow> (Inr (), s\<lparr>blocked_in := Some (AcquireTlwe h)\<rparr>))"

definition markVariableHostWrite :: "nat \<Rightarrow> ('a, 'r, 'g, unit) iy_act" where
  "markVariableHostWrite addr s = (case persistentVariableHandles s addr of
      None \<Rightarrow> (Inr (), s)
    | Some h \<Rightarrow> (Inr (), s\<lparr>blocked_in := Some (AcquireVariable h)\<rparr>))"

text \<open>IyokanStarpuTask::synchronizeOutput blocks in starpu_data_acquire unless an error is recorded.\<close>

definition synchronizeOutput :: "nat \<Rightarrow> ('a, 'r, 'g, unit) iy_act" where
  "synchronizeOutput t s =
     (if ts_error (states s ! t) \<noteq> 0 then (Inl SyncFailed, s)
      else (Inr (), s\<lparr>blocked_in := Some (SyncOutput t)\<rparr>))"

definition isFinished :: "nat \<Rightarrow> ('a, 'r, 'g) backend \<Rightarrow> bool" where
  "isFinished t s = ts_finished (states s ! t)"

section \<open>StarPU's side\<close>

text \<open>The handles a task reads and writes.\<close>

definition iy_rd :: "nat \<times> 'a iy_task \<Rightarrow> nat set" where
  "iy_rd t = fst ` {p \<in> set (it_handles (snd t)). snd p \<noteq> STARPU_W}"

definition iy_wr :: "nat \<times> 'a iy_task \<Rightarrow> nat set" where
  "iy_wr t = fst ` {p \<in> set (it_handles (snd t)). snd p \<noteq> STARPU_R}"

text \<open>
  Executing a task: the codelet gets the data of its handles and overwrites that
  of the first, which it must be allowed to write. \<open>place k\<close> is the worker of
  task \<open>k\<close>.
\<close>

definition run_iy_task ::
  "(nat, 'w::len word, 'r, 'g) iy_machine \<Rightarrow> nat option \<Rightarrow> (nat \<Rightarrow> arch \<times> int) \<Rightarrow>
   nat \<times> 'w word iy_task \<Rightarrow> (nat \<Rightarrow> ('w word, 'r, 'g) cell) \<Rightarrow> nat \<Rightarrow> ('w word, 'r, 'g) cell" where
  "run_iy_task im key place t d =
     (case it_handles (snd t) of
        [] \<Rightarrow> d
      | (h, m) # _ \<Rightarrow>
          if m = STARPU_R then d
          else (case iy_run im key (place (fst t)) (it_codelet (snd t)) (map (d \<circ> fst) (it_handles (snd t))) of
             Inr c \<Rightarrow> d(h := c)
           | Inl _ \<Rightarrow> d))"

text \<open>A task may complete when no earlier unfinished task conflicts with it.\<close>

definition unfinished :: "('a, 'r, 'g) backend \<Rightarrow> nat \<Rightarrow> bool" where
  "unfinished s t \<longleftrightarrow> t < length (tasks s) \<and> \<not> ts_finished (states s ! t)"

abbreviation task_at :: "('a, 'r, 'g) backend \<Rightarrow> nat \<Rightarrow> nat \<times> 'a iy_task" where
  "task_at s t \<equiv> (t, tasks s ! t)"

definition can_complete :: "('a, 'r, 'g) backend \<Rightarrow> nat \<Rightarrow> bool" where
  "can_complete s t \<longleftrightarrow> unfinished s t \<and>
     (\<forall>u < t. unfinished s u \<longrightarrow> \<not> conflict iy_rd iy_wr (task_at s u) (task_at s t))"

text \<open>The callback: the state is marked finished and the callback box is deleted.\<close>

definition taskCompleted :: "nat \<Rightarrow> ('a, 'r, 'g) backend \<Rightarrow> ('a, 'r, 'g) backend" where
  "taskCompleted t s =
     s\<lparr>states := (states s)[t := (states s ! t)\<lparr>ts_finished := True\<rparr>],
       callback_boxes := remove1 t (callback_boxes s)\<rparr>"

definition complete_task ::
  "(nat, 'w::len word, 'r, 'g) iy_machine \<Rightarrow> (nat \<Rightarrow> arch \<times> int) \<Rightarrow> nat \<Rightarrow>
   ('w word, 'r, 'g) backend \<Rightarrow> ('w word, 'r, 'g) backend" where
  "complete_task im place t s =
     taskCompleted t (s\<lparr>data := run_iy_task im (currentEvalKey s) place (task_at s t) (data s)\<rparr>)"

text \<open>
  starpu_data_acquire returns when no unfinished task conflicts with the access.
  For reading it brings the data to the host; after an acquisition for writing
  the host contents are the data.
\<close>

definition readable :: "('a, 'r, 'g) backend \<Rightarrow> nat \<Rightarrow> bool" where
  "readable s h \<longleftrightarrow> (\<forall>t. unfinished s t \<longrightarrow> h \<notin> iy_wr (task_at s t))"

definition writable :: "('a, 'r, 'g) backend \<Rightarrow> nat \<Rightarrow> bool" where
  "writable s h \<longleftrightarrow> (\<forall>t. unfinished s t \<longrightarrow> h \<notin> iy_wr (task_at s t) \<union> iy_rd (task_at s t))"

definition resumable :: "('a, 'r, 'g) backend \<Rightarrow> blocked \<Rightarrow> bool" where
  "resumable s b = (case b of
      WaitForTask t \<Rightarrow> isFinished t s \<and> readable s (ts_output (states s ! t))
    | SyncOutput t \<Rightarrow> readable s (ts_output (states s ! t))
    | AcquireTlwe h \<Rightarrow> writable s h
    | AcquireVariable h \<Rightarrow> writable s h
    | WaitForAll \<Rightarrow> (\<forall>t. \<not> unfinished s t))"

definition acquire_read :: "'a iy_env \<Rightarrow> nat \<Rightarrow> ('a, 'r, 'g, unit) iy_act" where
  "acquire_read env t s =
     (let h = ts_output (states s ! t) in
      if ts_error (states s ! t) \<noteq> 0 then (Inl SyncFailed, s)
      else if \<not> starpuRunning s \<or> \<not> hi_live (handle_table s ! h) then (Inl DeadHandle, s)
      else if se_acquire env h = 0
           then (Inr (), s\<lparr>host := (host s)(hi_addr (handle_table s ! h) := data s h)\<rparr>)
      else (Inl SyncFailed, s\<lparr>states := (states s)[t := (states s ! t)\<lparr>ts_error := se_acquire env h\<rparr>]\<rparr>))"

definition acquire_write :: "'a iy_env \<Rightarrow> iyokan_error \<Rightarrow> nat \<Rightarrow> ('a, 'r, 'g, unit) iy_act" where
  "acquire_write env err h s =
     (if \<not> starpuRunning s \<or> \<not> hi_live (handle_table s ! h) then (Inl DeadHandle, s)
      else if se_acquire env h \<noteq> 0 then (Inl err, s)
      else (Inr (), s\<lparr>data := (data s)(h := host s (hi_addr (handle_table s ! h)))\<rparr>))"

text \<open>What a blocked call does when it wakes up.\<close>

definition resume :: "'a iy_env \<Rightarrow> blocked \<Rightarrow> ('a, 'r, 'g, unit) iy_act" where
  "resume env b s0 =
     (let s = s0\<lparr>blocked_in := None\<rparr> in
      case b of
        WaitForTask t \<Rightarrow> acquire_read env t s
      | SyncOutput t \<Rightarrow> acquire_read env t s
      | AcquireTlwe h \<Rightarrow> acquire_write env TlweMarkFailed h s
      | AcquireVariable h \<Rightarrow> acquire_write env VariableMarkFailed h s
      | WaitForAll \<Rightarrow> (Inr (), finish_shutdown env s))"

section \<open>The transition relation\<close>

text \<open>The calls of the public interface; addresses stand for the C++ references.\<close>

datatype api_call = Configure uint uint | Prepare nat | Shutdown | BeginCapture | EndCapture
  | SynchronizeCapture | MarkTLWE nat | MarkTRLWE nat | MarkTRGSWFFT nat
  | BinaryGate IyokanBinaryGate nat nat nat nat | NotGate nat nat | MuxGate nat nat nat nat nat
  | CmuxGate nat nat nat nat | MuxWoSEGate nat nat nat nat nat | Synchronize nat

text \<open>The TFHEpp functions that the offload header redefines, and what each becomes.\<close>

datatype tfhepp_call = TfBinary tfhepp_gate nat nat nat nat | TfHomNOT nat nat
  | TfHomMUX nat nat nat nat nat | TfCMUXFFT nat nat nat nat | TfHomMUXwoSE nat nat nat nat nat

primrec offload_call :: "tfhepp_call \<Rightarrow> api_call" where
  "offload_call (TfBinary g out left right evalKey) = BinaryGate (offload_gate g) out left right evalKey"
| "offload_call (TfHomNOT out input) = NotGate out input"
| "offload_call (TfHomMUX out sel whenTrue whenFalse evalKey) = MuxGate out sel whenTrue whenFalse evalKey"
| "offload_call (TfCMUXFFT out sel whenTrue whenFalse) = CmuxGate out sel whenTrue whenFalse"
| "offload_call (TfHomMUXwoSE out sel whenTrue whenFalse evalKey) = MuxWoSEGate out sel whenTrue whenFalse evalKey"

definition iy_call :: "'w::len word iy_env \<Rightarrow> api_call \<Rightarrow> ('w word, 'r, 'g, nat option) iy_act" where
  "iy_call env c = (case c of
      Configure cpus cudas \<Rightarrow> abind (configureIyokanStarpu cpus cudas) (\<lambda>_. areturn None)
    | Prepare k \<Rightarrow> abind (prepareIyokanStarpu env k) (\<lambda>_. areturn None)
    | Shutdown \<Rightarrow> abind shutdownIyokanStarpu (\<lambda>_. areturn None)
    | BeginCapture \<Rightarrow> abind beginIyokanStarpuCapture (\<lambda>_. areturn None)
    | EndCapture \<Rightarrow> endIyokanStarpuCapture
    | SynchronizeCapture \<Rightarrow> abind synchronizeIyokanStarpuCapture (\<lambda>_. areturn None)
    | MarkTLWE a \<Rightarrow> abind (markIyokanTLWEHostWrite a) (\<lambda>_. areturn None)
    | MarkTRLWE a \<Rightarrow> abind (markVariableHostWrite a) (\<lambda>_. areturn None)
    | MarkTRGSWFFT a \<Rightarrow> abind (markVariableHostWrite a) (\<lambda>_. areturn None)
    | BinaryGate g out l r k \<Rightarrow> abind (runIyokanStarpuBinaryGate env g out l r k) (\<lambda>_. areturn None)
    | NotGate out i \<Rightarrow> abind (runIyokanStarpuNot env out i) (\<lambda>_. areturn None)
    | MuxGate out sel t f k \<Rightarrow> abind (runIyokanStarpuMux env out sel t f k) (\<lambda>_. areturn None)
    | CmuxGate out sel t f \<Rightarrow> abind (runIyokanStarpuCMUXFFT env out sel t f) (\<lambda>_. areturn None)
    | MuxWoSEGate out sel t f k \<Rightarrow> abind (runIyokanStarpuMuxWoSE env out sel t f k) (\<lambda>_. areturn None)
    | Synchronize t \<Rightarrow> abind (synchronizeOutput t) (\<lambda>_. areturn None))"

text \<open>
  A client thread that is not blocked calls the interface or writes its own
  memory; StarPU completes tasks at any time; a blocked call wakes up.
\<close>

inductive iy_step ::
  "(nat, 'w::len word, 'r, 'g) iy_machine \<Rightarrow> 'w word iy_env \<Rightarrow> (nat \<Rightarrow> arch \<times> int) \<Rightarrow>
   ('w word, 'r, 'g) backend \<Rightarrow> ('w word, 'r, 'g) backend \<Rightarrow> bool"
  for im env place where
  call: "blocked_in s = None \<Longrightarrow> (\<forall>t. c = Synchronize t \<longrightarrow> t < length (tasks s)) \<Longrightarrow>
     iy_step im env place s (snd (iy_call env c s))"
| host_write: "blocked_in s = None \<Longrightarrow> iy_step im env place s (s\<lparr>host := (host s)(a := v)\<rparr>)"
| complete: "can_complete s t \<Longrightarrow> iy_step im env place s (complete_task im place t s)"
| wake: "blocked_in s = Some b \<Longrightarrow> resumable s b \<Longrightarrow> iy_step im env place s (snd (resume env b s))"

definition initial_backend ::
  "(string \<rightharpoonup> string) \<Rightarrow> (nat \<Rightarrow> ('a, 'r, 'g) cell) \<Rightarrow> ('a, 'r, 'g) backend" where
  "initial_backend e mem =
     \<lparr>currentEvalKey = None, starpuInitOnce = False, starpuInitStatus = - 1, starpuRunning = False,
      configuredCpuWorkers = 0, configuredCudaDevices = 0, persistentHandles = Map.empty,
      persistentVariableHandles = Map.empty, captureActive = False, capturedTask = None,
      cufheppInitialized = False, environ = e, used_config = None, handle_table = [], tasks = [],
      states = [], callback_boxes = [], attempts = 0, data = (\<lambda>_. TLWECell []), host = mem,
      blocked_in = None\<rparr>"

inductive iy_reachable ::
  "(nat, 'w::len word, 'r, 'g) iy_machine \<Rightarrow> 'w word iy_env \<Rightarrow> (nat \<Rightarrow> arch \<times> int) \<Rightarrow>
   ('w word, 'r, 'g) backend \<Rightarrow> bool"
  for im env place where
  start: "iy_reachable im env place (initial_backend e mem)"
| step: "iy_reachable im env place s \<Longrightarrow> iy_step im env place s s' \<Longrightarrow> iy_reachable im env place s'"

section \<open>Registries\<close>

text \<open>
  The contract of a registry of handles, which the submission functions rely on:
  \<open>table\<close> looks a key up, \<open>up\<close> says that the runtime accepts registrations, and
  \<open>enter k\<close> is the state in which \<open>k\<close> has a handle.
\<close>

locale handle_registry =
  fixes table :: "'s \<Rightarrow> 'k \<rightharpoonup> 'h" and up :: "'s \<Rightarrow> bool" and enter :: "'k \<Rightarrow> 's \<Rightarrow> 's"
    and handle_for :: "'k \<Rightarrow> ('s, 'e, 'h) act"
  assumes hit: "table s k = Some h \<Longrightarrow> handle_for k s = (Inr h, s)"
    and miss: "table s k = None \<Longrightarrow> up s \<Longrightarrow> handle_for k s = (Inr (the (table (enter k s) k)), enter k s)"
    and down: "table s k = None \<Longrightarrow> \<not> up s \<Longrightarrow> \<exists>e. handle_for k s = (Inl e, s)"
    and enter_hit: "table s k \<noteq> None \<Longrightarrow> enter k s = s"
    and entered: "table (enter k s) k \<noteq> None"
    and enter_keeps: "table s k' = Some h \<Longrightarrow> table (enter k s) k' = Some h"
    and enter_up: "up (enter k s) = up s"
begin

lemma handle_for_up:
  assumes "up s"
  shows "handle_for k s = (Inr (the (table (enter k s) k)), enter k s)"
proof (cases "table s k")
  case None
  then show ?thesis using miss assms by blast
next
  case (Some h)
  then have "enter k s = s" using enter_hit by simp
  with Some hit show ?thesis by simp
qed

lemma enter_all_keeps: "table s k' = Some h \<Longrightarrow> table (fold enter ks s) k' = Some h"
  by (induction ks arbitrary: s) (auto dest: enter_keeps)

lemma enter_all_up: "up (fold enter ks s) = up s"
  by (induction ks arbitrary: s) (auto simp: enter_up)

lemma enter_all_entered: "k \<in> set ks \<Longrightarrow> table (fold enter ks s) k \<noteq> None"
proof (induction ks arbitrary: s)
  case (Cons a ks)
  then show ?case
    using enter_all_keeps entered by (metis fold_simps(2) option.distinct(1) not_None_eq set_ConsD)
qed simp

text \<open>Looking up a list of keys returns their handles in the state where all of them have one.\<close>

lemma handles_for_up:
  assumes "up s"
  shows "amap handle_for ks s = (Inr (map (\<lambda>k. the (table (fold enter ks s) k)) ks), fold enter ks s)"
  using assms
proof (induction ks arbitrary: s)
  case Nil
  then show ?case by (simp add: act_simps)
next
  case (Cons k ks)
  let ?s = "enter k s"
  have "up ?s" using Cons.prems by (simp add: enter_up)
  then have rest: "amap handle_for ks ?s =
      (Inr (map (\<lambda>k. the (table (fold enter ks ?s) k)) ks), fold enter ks ?s)"
    by (rule Cons.IH)
  have "the (table (fold enter ks ?s) k) = the (table ?s k)"
    using entered [of k s] enter_all_keeps by fastforce
  then show ?case
    by (simp add: abind_def handle_for_up [OF Cons.prems] rest act_simps)
qed

text \<open>When the runtime is down nothing changes.\<close>

lemma handles_for_down:
  assumes "\<not> up s" and "table s (hd ks) = None" and "ks \<noteq> []"
  shows "\<exists>e. amap handle_for ks s = (Inl e, s)"
proof -
  obtain k ks' where ks: "ks = k # ks'" using assms(3) by (cases ks) auto
  obtain e where "handle_for k s = (Inl e, s)" using down assms ks by fastforce
  then show ?thesis by (simp add: ks abind_Inl)
qed

end

definition enter_tlwe :: "'a iy_env \<Rightarrow> nat \<Rightarrow> ('a, 'r, 'g) backend \<Rightarrow> ('a, 'r, 'g) backend" where
  "enter_tlwe env a s = (if persistentHandles s a \<noteq> None then s
     else s\<lparr>handle_table := handle_table s @
                [\<lparr>hi_addr = a, hi_iface = VectorIface (se_tlwe_size env), hi_live = True\<rparr>],
            data := (data s)(length (handle_table s) := host s a),
            persistentHandles := (persistentHandles s)(a \<mapsto> length (handle_table s))\<rparr>)"

definition enter_variable :: "nat \<times> nat \<Rightarrow> ('a, 'r, 'g) backend \<Rightarrow> ('a, 'r, 'g) backend" where
  "enter_variable p s = (if persistentVariableHandles s (fst p) \<noteq> None then s
     else s\<lparr>handle_table := handle_table s @
                [\<lparr>hi_addr = fst p, hi_iface = VariableIface (snd p), hi_live = True\<rparr>],
            data := (data s)(length (handle_table s) := host s (fst p)),
            persistentVariableHandles :=
              (persistentVariableHandles s)(fst p \<mapsto> length (handle_table s))\<rparr>)"

interpretation tlwe_registry: handle_registry persistentHandles starpuRunning "enter_tlwe env"
  "persistentHandleFor env" for env :: "'a iy_env"
  by unfold_locales
    (auto simp: persistentHandleFor_def enter_tlwe_def register_handle_def abind_def Let_def act_simps)

interpretation variable_registry: handle_registry "\<lambda>s p. persistentVariableHandles s (fst p)" starpuRunning
  enter_variable "\<lambda>(addr, bytes). persistentVariableHandleFor bytes addr"
  by unfold_locales
    (auto simp: persistentVariableHandleFor_def enter_variable_def register_handle_def abind_def
      Let_def act_simps split: if_split_asm)

section \<open>The dataflow of submitted tasks\<close>

text \<open>
  A submitted task writes its first handle and only reads the others, with the
  modes of its codelet.
\<close>

definition task_wf :: "nat \<Rightarrow> 'a iy_task \<Rightarrow> bool" where
  "task_wf n T \<longleftrightarrow>
     it_handles T \<noteq> [] \<and> (\<forall>p \<in> set (it_handles T). fst p < n) \<and>
     map snd (it_handles T) = ic_modes (it_codelet T) \<and>
     ic_nbuffers (it_codelet T) = length (it_handles T) \<and>
     snd (hd (it_handles T)) \<noteq> STARPU_R \<and> (\<forall>p \<in> set (tl (it_handles T)). snd p = STARPU_R)"

lemma iy_wr_wf: "task_wf n T \<Longrightarrow> iy_wr (k, T) = {fst (hd (it_handles T))}"
  by (cases "it_handles T") (auto simp: task_wf_def iy_wr_def)

lemma iy_handles_cover: "fst ` set (it_handles T) \<subseteq> iy_rd (k, T) \<union> iy_wr (k, T)"
  by (auto simp: iy_rd_def iy_wr_def) (metis (mono_tags, lifting) access_mode.distinct(1) fst_conv image_eqI mem_Collect_eq snd_conv)

interpretation iyokan: dataflow iy_rd iy_wr "run_iy_task im key place"
  for im :: "(nat, 'w::len word, 'r, 'g) iy_machine" and key place
proof
  show "run_iy_task im key place t d h = d h" if "h \<notin> iy_wr t"
    for h and t :: "nat \<times> 'w word iy_task" and d
  proof (cases "it_handles (snd t)")
    case (Cons p ps)
    with that have "fst p \<noteq> h" if "snd p \<noteq> STARPU_R"
      using that by (auto simp: iy_wr_def)
    with Cons show ?thesis by (cases p) (auto simp: run_iy_task_def split: sum.split)
  qed (simp add: run_iy_task_def)
next
  fix t :: "nat \<times> 'w word iy_task" and d d' :: "nat \<Rightarrow> ('w word, 'r, 'g) cell" and h
  assume eq: "\<forall>h \<in> iy_rd t \<union> iy_wr t. d h = d' h" and h: "h \<in> iy_wr t"
  have args: "map (d \<circ> fst) (it_handles (snd t)) = map (d' \<circ> fst) (it_handles (snd t))"
    using eq iy_handles_cover [of "snd t" "fst t"] by auto
  then show "run_iy_task im key place t d h = run_iy_task im key place t d' h"
    using eq h unfolding run_iy_task_def args by (auto split: list.split sum.split)
qed

section \<open>The invariant\<close>

text \<open>
  A cached handle is live, was registered for that address, and with that
  interface; and no live handle has left the registries.
\<close>

definition registry_ok :: "('a, 'r, 'g) backend \<Rightarrow> bool" where
  "registry_ok s \<longleftrightarrow>
     (\<forall>a h. persistentHandles s a = Some h \<longrightarrow> h < length (handle_table s) \<and>
        hi_addr (handle_table s ! h) = a \<and> hi_live (handle_table s ! h) \<and>
        (\<exists>n. hi_iface (handle_table s ! h) = VectorIface n)) \<and>
     (\<forall>a h. persistentVariableHandles s a = Some h \<longrightarrow> h < length (handle_table s) \<and>
        hi_addr (handle_table s ! h) = a \<and> hi_live (handle_table s ! h) \<and>
        (\<exists>n. hi_iface (handle_table s ! h) = VariableIface n)) \<and>
     (\<forall>h < length (handle_table s). hi_live (handle_table s ! h) \<longrightarrow>
        persistentHandles s (hi_addr (handle_table s ! h)) = Some h \<or>
        persistentVariableHandles s (hi_addr (handle_table s ! h)) = Some h)"

definition tasks_ok :: "('a, 'r, 'g) backend \<Rightarrow> bool" where
  "tasks_ok s \<longleftrightarrow>
     length (states s) = length (tasks s) \<and>
     (\<forall>t < length (tasks s). task_wf (length (handle_table s)) (tasks s ! t) \<and>
        ts_output (states s ! t) = fst (hd (it_handles (tasks s ! t))))"

text \<open>A callback box is allocated exactly for the tasks that have not finished.\<close>

definition boxes_ok :: "('a, 'r, 'g) backend \<Rightarrow> bool" where
  "boxes_ok s \<longleftrightarrow> callback_boxes s = filter (unfinished s) [0..<length (tasks s)]"

definition life_ok :: "('a, 'r, 'g) backend \<Rightarrow> bool" where
  "life_ok s \<longleftrightarrow>
     (\<not> starpuInitOnce s \<longrightarrow> starpuInitStatus s = - 1 \<and> tasks s = [] \<and> currentEvalKey s = None) \<and>
     (starpuRunning s \<longrightarrow> starpuInitOnce s \<and> starpuInitStatus s = 0) \<and>
     (\<not> starpuRunning s \<longrightarrow> persistentHandles s = Map.empty \<and> persistentVariableHandles s = Map.empty \<and>
        (\<forall>t. \<not> unfinished s t))"

text \<open>The task or handle that a call is blocked on exists.\<close>

primrec blocked_ok :: "nat \<Rightarrow> nat \<Rightarrow> bool \<Rightarrow> blocked \<Rightarrow> bool" where
  "blocked_ok nt nh up (WaitForTask t) = (t < nt)"
| "blocked_ok nt nh up (SyncOutput t) = (t < nt)"
| "blocked_ok nt nh up (AcquireTlwe h) = (h < nh)"
| "blocked_ok nt nh up (AcquireVariable h) = (h < nh)"
| "blocked_ok nt nh up WaitForAll = up"

lemma blocked_ok_mono:
  "blocked_ok nt nh up b \<Longrightarrow> nt \<le> nt' \<Longrightarrow> nh \<le> nh' \<Longrightarrow> (up \<Longrightarrow> up') \<Longrightarrow> blocked_ok nt' nh' up' b"
  by (cases b) auto

definition refs_ok :: "('a, 'r, 'g) backend \<Rightarrow> bool" where
  "refs_ok s \<longleftrightarrow>
     (\<forall>t. capturedTask s = Some t \<longrightarrow> captureActive s \<and> t < length (tasks s)) \<and>
     (\<forall>b. blocked_in s = Some b \<longrightarrow>
        blocked_ok (length (tasks s)) (length (handle_table s)) (starpuRunning s) b)"

text \<open>A finished task has no unfinished earlier task in conflict with it.\<close>

definition order_ok :: "('a, 'r, 'g) backend \<Rightarrow> bool" where
  "order_ok s \<longleftrightarrow>
     (\<forall>t u. u < t \<longrightarrow> t < length (tasks s) \<longrightarrow> ts_finished (states s ! t) \<longrightarrow>
        conflict iy_rd iy_wr (task_at s u) (task_at s t) \<longrightarrow> ts_finished (states s ! u))"

definition backend_inv :: "('a, 'r, 'g) backend \<Rightarrow> bool" where
  "backend_inv s \<longleftrightarrow> registry_ok s \<and> tasks_ok s \<and> boxes_ok s \<and> life_ok s \<and> refs_ok s \<and> order_ok s"

lemmas inv_defs = backend_inv_def registry_ok_def tasks_ok_def boxes_ok_def life_ok_def refs_ok_def
  order_ok_def

text \<open>The fields that the invariant looks at, apart from the life cycle.\<close>

definition same_core :: "('a, 'r, 'g) backend \<Rightarrow> ('a, 'r, 'g) backend \<Rightarrow> bool" where
  "same_core s s' \<longleftrightarrow>
     tasks s' = tasks s \<and> states s' = states s \<and> callback_boxes s' = callback_boxes s \<and>
     handle_table s' = handle_table s \<and> persistentHandles s' = persistentHandles s \<and>
     persistentVariableHandles s' = persistentVariableHandles s \<and>
     capturedTask s' = capturedTask s \<and> captureActive s' = captureActive s \<and>
     blocked_in s' = blocked_in s \<and> (starpuRunning s \<longrightarrow> starpuRunning s')"

lemma unfinished_cong: "tasks s' = tasks s \<Longrightarrow> states s' = states s \<Longrightarrow> unfinished s' = unfinished s"
  by (simp add: unfinished_def fun_eq_iff)

lemma inv_same_core:
  assumes "backend_inv s" and same: "same_core s s'" and "life_ok s'"
  shows "backend_inv s'"
proof -
  have eqs: "tasks s' = tasks s" "states s' = states s" "callback_boxes s' = callback_boxes s"
    "handle_table s' = handle_table s" "persistentHandles s' = persistentHandles s"
    "persistentVariableHandles s' = persistentVariableHandles s" "capturedTask s' = capturedTask s"
    "captureActive s' = captureActive s" "blocked_in s' = blocked_in s"
    and up: "starpuRunning s \<Longrightarrow> starpuRunning s'"
    using same by (auto simp: same_core_def)
  have "refs_ok s'"
    using assms(1) blocked_ok_mono [OF _ order_refl order_refl up] unfolding backend_inv_def refs_ok_def eqs
    by blast
  with assms show ?thesis
    by (simp add: backend_inv_def registry_ok_def tasks_ok_def boxes_ok_def order_ok_def eqs
        unfinished_cong [OF eqs(1,2)])
qed

lemma life_ok_key:
  assumes "life_ok s" and "starpuInitOnce s"
  shows "life_ok (s\<lparr>currentEvalKey := k\<rparr>)"
  using assms by (simp add: life_ok_def unfinished_def)

lemma life_ok_cufhepp: "life_ok s \<Longrightarrow> life_ok (s\<lparr>cufheppInitialized := c\<rparr>)"
  by (simp add: life_ok_def unfinished_def)

lemma update_key_inv:
  assumes "backend_inv s" and "starpuInitOnce s"
  shows "backend_inv (s\<lparr>currentEvalKey := k\<rparr>)"
  using assms life_ok_key by (intro inv_same_core [OF assms(1)]) (auto simp: same_core_def backend_inv_def)

lemma update_cufhepp_inv: "backend_inv s \<Longrightarrow> backend_inv (s\<lparr>cufheppInitialized := c\<rparr>)"
  by (rule inv_same_core [of s]) (simp_all add: same_core_def backend_inv_def life_ok_cufhepp)

lemma init_starpu_inv:
  assumes "backend_inv s" and "\<not> starpuInitOnce s"
  shows "backend_inv (init_starpu env s)"
proof (rule inv_same_core [OF assms(1)])
  show "same_core s (init_starpu env s)"
    by (simp add: same_core_def init_starpu_def Let_def)
  have "\<not> starpuRunning s" "tasks s = []" "persistentHandles s = Map.empty"
    "persistentVariableHandles s = Map.empty"
    using assms by (auto simp: backend_inv_def life_ok_def)
  then show "life_ok (init_starpu env s)"
    by (simp add: life_ok_def init_starpu_def Let_def unfinished_def)
qed

lemma ensureStarpuRuntime_spec:
  "act_spec backend_inv (ensureStarpuRuntime env) (\<lambda>_ s. backend_inv s \<and> starpuInitOnce s) backend_inv"
proof -
  have "starpuInitOnce (init_starpu env s)" for s :: "('a, 'b, 'c) backend"
    by (simp add: init_starpu_def Let_def)
  then show ?thesis
    using init_starpu_inv by (auto simp: act_spec_def ensureStarpuRuntime_def Let_def)
qed

lemma initializeIyokanCufhepp_inv: "backend_inv s \<Longrightarrow> backend_inv (initializeIyokanCufhepp env s)"
  by (simp add: initializeIyokanCufhepp_def update_cufhepp_inv)

lemma ensureStarpu_spec: "act_spec backend_inv (ensureStarpu env k) (\<lambda>_. backend_inv) backend_inv"
  unfolding ensureStarpu_def
proof (rule act_spec_bind [OF ensureStarpuRuntime_spec])
  fix x
  show "act_spec (\<lambda>s. backend_inv s \<and> starpuInitOnce s)
     (\<lambda>s. case currentEvalKey s of
        None \<Rightarrow> (let s1 = s\<lparr>currentEvalKey := Some k\<rparr>
                in (Inr (), if se_cufhepp env then initializeIyokanCufhepp env s1 else s1))
      | Some k' \<Rightarrow> if k' \<noteq> k then (Inl TwoKeys, s)
          else (Inr (), if se_cufhepp env then initializeIyokanCufhepp env s else s))
     (\<lambda>_. backend_inv) backend_inv"
    using initializeIyokanCufhepp_inv update_key_inv
    by (auto simp: act_spec_def Let_def split: option.split)
qed

lemma inv_frame:
  assumes "backend_inv s"
    and "same_core s s' \<and> starpuRunning s' = starpuRunning s \<and> starpuInitOnce s' = starpuInitOnce s \<and>
         starpuInitStatus s' = starpuInitStatus s \<and> currentEvalKey s' = currentEvalKey s"
  shows "backend_inv s'"
proof (rule inv_same_core [OF assms(1)])
  have "unfinished s' = unfinished s"
    using assms(2) by (intro unfinished_cong) (auto simp: same_core_def)
  then show "life_ok s'"
    using assms by (simp add: backend_inv_def life_ok_def same_core_def)
qed (use assms(2) in simp)

lemma update_memory_inv:
  "backend_inv s \<Longrightarrow> backend_inv (s\<lparr>data := d\<rparr>)" "backend_inv s \<Longrightarrow> backend_inv (s\<lparr>host := m\<rparr>)"
  "backend_inv s \<Longrightarrow> backend_inv (s\<lparr>attempts := n\<rparr>)"
  "backend_inv s \<Longrightarrow> backend_inv (s\<lparr>configuredCpuWorkers := c, configuredCudaDevices := e\<rparr>)"
  by (erule inv_frame; simp add: same_core_def)+

text \<open>Changing what the client is blocked in, and the capture.\<close>

lemma update_client_inv:
  assumes "backend_inv s"
    and "\<forall>t. c = Some t \<longrightarrow> act \<and> t < length (tasks s)"
    and "\<forall>b. bl = Some b \<longrightarrow> blocked_ok (length (tasks s)) (length (handle_table s)) (starpuRunning s) b"
  shows "backend_inv (s\<lparr>captureActive := act, capturedTask := c, blocked_in := bl\<rparr>)"
proof -
  let ?s = "s\<lparr>captureActive := act, capturedTask := c, blocked_in := bl\<rparr>"
  have "unfinished ?s = unfinished s" by (rule unfinished_cong) simp_all
  then show ?thesis
    using assms
    by (simp add: backend_inv_def registry_ok_def tasks_ok_def boxes_ok_def life_ok_def refs_ok_def order_ok_def)
qed

lemma block_inv:
  assumes "backend_inv s" and "blocked_ok (length (tasks s)) (length (handle_table s)) (starpuRunning s) b"
  shows "backend_inv (s\<lparr>blocked_in := Some b\<rparr>)"
  using update_client_inv [OF assms(1), of "capturedTask s" "captureActive s" "Some b"] assms
  by (simp add: backend_inv_def refs_ok_def)

lemma unblock_inv: "backend_inv s \<Longrightarrow> backend_inv (s\<lparr>blocked_in := None\<rparr>)"
  using update_client_inv [of s "capturedTask s" "captureActive s" None]
  by (simp add: backend_inv_def refs_ok_def)

lemma capture_inv:
  assumes "backend_inv s" and "\<forall>t. c = Some t \<longrightarrow> act \<and> t < length (tasks s)"
  shows "backend_inv (s\<lparr>captureActive := act, capturedTask := c\<rparr>)"
  using update_client_inv [OF assms, of "blocked_in s"] assms
  by (simp add: backend_inv_def refs_ok_def)

lemma task_wf_mono: "task_wf n T \<Longrightarrow> n \<le> m \<Longrightarrow> task_wf m T"
  by (fastforce simp: task_wf_def)

text \<open>A new handle, entered in one of the registries.\<close>

lemma append_handle_inv:
  assumes inv: "backend_inv s" and up: "starpuRunning s"
    and reg: "registry_ok (s\<lparr>handle_table := handle_table s @ [i], persistentHandles := ph,
                             persistentVariableHandles := pv\<rparr>)"
  shows "backend_inv (s\<lparr>handle_table := handle_table s @ [i], persistentHandles := ph,
                        persistentVariableHandles := pv\<rparr>)"
proof -
  let ?s = "s\<lparr>handle_table := handle_table s @ [i], persistentHandles := ph, persistentVariableHandles := pv\<rparr>"
  have unf: "unfinished ?s = unfinished s" by (rule unfinished_cong) simp_all
  have "tasks_ok ?s"
    using inv task_wf_mono [of "length (handle_table s)" _ "Suc (length (handle_table s))"]
    by (auto simp: backend_inv_def tasks_ok_def)
  moreover have "refs_ok ?s"
    using inv blocked_ok_mono [of "length (tasks s)" "length (handle_table s)" "starpuRunning s" _
        "length (tasks s)" "Suc (length (handle_table s))" "starpuRunning s"]
    by (auto simp: backend_inv_def refs_ok_def)
  ultimately show ?thesis
    using inv up reg
    by (simp add: backend_inv_def boxes_ok_def unf life_ok_def order_ok_def)
qed

text \<open>The laws of the registries, one by one, for a table with one more handle.\<close>

lemma registry_ok_append:
  assumes ok: "registry_ok s" and i: "hi_addr i = a" "hi_live i"
    and new: "ph = (persistentHandles s)(a \<mapsto> length (handle_table s)) \<and> pv = persistentVariableHandles s \<and>
        persistentHandles s a = None \<and> (\<exists>n. hi_iface i = VectorIface n) \<or>
      ph = persistentHandles s \<and> pv = (persistentVariableHandles s)(a \<mapsto> length (handle_table s)) \<and>
        persistentVariableHandles s a = None \<and> (\<exists>n. hi_iface i = VariableIface n)"
  shows "registry_ok (s\<lparr>handle_table := handle_table s @ [i], persistentHandles := ph,
     persistentVariableHandles := pv\<rparr>)"
proof -
  let ?n = "length (handle_table s)" and ?t = "handle_table s @ [i]"
  have old: "?t ! h = handle_table s ! h" if "h < ?n" for h using that by (simp add: nth_append)
  have "h < Suc ?n \<and> hi_addr (?t ! h) = b \<and> hi_live (?t ! h) \<and> (\<exists>n. hi_iface (?t ! h) = VectorIface n)"
    if "ph b = Some h" for b h
  proof -
    from new that consider "persistentHandles s b = Some h"
      | "b = a" "h = ?n" "\<exists>n. hi_iface i = VectorIface n" by (auto split: if_split_asm)
    then show ?thesis using ok i old [of h] by cases (auto simp: registry_ok_def intro: less_SucI)
  qed
  moreover have "h < Suc ?n \<and> hi_addr (?t ! h) = b \<and> hi_live (?t ! h) \<and> (\<exists>n. hi_iface (?t ! h) = VariableIface n)"
    if "pv b = Some h" for b h
  proof -
    from new that consider "persistentVariableHandles s b = Some h"
      | "b = a" "h = ?n" "\<exists>n. hi_iface i = VariableIface n" by (auto split: if_split_asm)
    then show ?thesis using ok i old [of h] by cases (auto simp: registry_ok_def intro: less_SucI)
  qed
  moreover have "ph (hi_addr (?t ! h)) = Some h \<or> pv (hi_addr (?t ! h)) = Some h"
    if "h < Suc ?n" "hi_live (?t ! h)" for h
  proof (cases "h = ?n")
    case False
    with that have h: "h < ?n" "hi_live (handle_table s ! h)" using old by auto
    then have "persistentHandles s (hi_addr (handle_table s ! h)) = Some h \<or>
        persistentVariableHandles s (hi_addr (handle_table s ! h)) = Some h"
      using ok by (simp add: registry_ok_def)
    then show ?thesis using new unfolding old [OF h(1)] by (auto split: if_split_asm)
  qed (use new i in auto)
  ultimately show ?thesis unfolding registry_ok_def by simp
qed

lemma enter_tlwe_inv:
  assumes "backend_inv s" and "starpuRunning s"
  shows "backend_inv (enter_tlwe env a s)"
proof (cases "persistentHandles s a")
  case None
  let ?i = "\<lparr>hi_addr = a, hi_iface = VectorIface (se_tlwe_size env), hi_live = True\<rparr>"
    and ?ph = "(persistentHandles s)(a \<mapsto> length (handle_table s))"
  have "registry_ok (s\<lparr>handle_table := handle_table s @ [?i], persistentHandles := ?ph,
      persistentVariableHandles := persistentVariableHandles s\<rparr>)"
    using assms(1) None by (intro registry_ok_append [where a = a]) (simp_all add: backend_inv_def)
  from append_handle_inv [OF assms this] have
    "backend_inv (s\<lparr>handle_table := handle_table s @ [?i], persistentHandles := ?ph\<rparr>)" by simp
  then show ?thesis
    by (rule inv_frame) (simp add: enter_tlwe_def None same_core_def)
next
  case (Some h)
  then show ?thesis using assms by (simp add: enter_tlwe_def)
qed

lemma enter_variable_inv:
  assumes "backend_inv s" and "starpuRunning s"
  shows "backend_inv (enter_variable p s)"
proof (cases "persistentVariableHandles s (fst p)")
  case None
  let ?i = "\<lparr>hi_addr = fst p, hi_iface = VariableIface (snd p), hi_live = True\<rparr>"
    and ?pv = "(persistentVariableHandles s)(fst p \<mapsto> length (handle_table s))"
  have "registry_ok (s\<lparr>handle_table := handle_table s @ [?i], persistentHandles := persistentHandles s,
      persistentVariableHandles := ?pv\<rparr>)"
    using assms(1) None by (intro registry_ok_append [where a = "fst p"]) (simp_all add: backend_inv_def)
  from append_handle_inv [OF assms this] have
    "backend_inv (s\<lparr>handle_table := handle_table s @ [?i], persistentVariableHandles := ?pv\<rparr>)" by simp
  then show ?thesis
    by (rule inv_frame) (simp add: enter_variable_def None same_core_def)
next
  case (Some h)
  then show ?thesis using assms by (simp add: enter_variable_def)
qed

text \<open>
  A registry whose entries go with an invariant of the state: entering a key
  keeps it, and while the runtime is down the registry is empty.
\<close>

locale invariant_registry = handle_registry table up enter handle_for
  for table :: "'s \<Rightarrow> 'k \<rightharpoonup> 'h" and up enter and handle_for :: "'k \<Rightarrow> ('s, 'e, 'h) act" +
  fixes inv :: "'s \<Rightarrow> bool"
  assumes enter_inv: "inv s \<Longrightarrow> up s \<Longrightarrow> inv (enter k s)"
    and down_empty: "inv s \<Longrightarrow> \<not> up s \<Longrightarrow> table s k = None"
begin

lemma enter_all_inv: "inv s \<Longrightarrow> up s \<Longrightarrow> inv (fold enter ks s)"
  by (induction ks arbitrary: s) (auto simp: enter_inv enter_up)

lemma handles_for_cases:
  assumes "inv s" and "ks \<noteq> []"
  obtains e where "\<not> up s" and "amap handle_for ks s = (Inl e, s)"
  | "up s" and "amap handle_for ks s = (Inr (map (\<lambda>k. the (table (fold enter ks s) k)) ks), fold enter ks s)"
  using assms handles_for_up handles_for_down down_empty by (cases "up s") blast+

lemma handles_spec:
  assumes "ks \<noteq> []"
  shows "act_spec inv (amap handle_for ks)
    (\<lambda>hs s. inv s \<and> up s \<and> hs = map (\<lambda>k. the (table s k)) ks \<and> (\<forall>k \<in> set ks. table s k \<noteq> None)) inv"
proof (rule act_specI)
  fix s hs s'
  assume s: "inv s" and run: "amap handle_for ks s = (Inr hs, s')"
  from s assms show "inv s' \<and> up s' \<and> hs = map (\<lambda>k. the (table s' k)) ks \<and> (\<forall>k \<in> set ks. table s' k \<noteq> None)"
    by (rule handles_for_cases) (use run s enter_all_inv enter_all_up enter_all_entered in auto)
next
  fix s e s'
  assume s: "inv s" and run: "amap handle_for ks s = (Inl e, s')"
  from s assms show "inv s'"
    by (rule handles_for_cases) (use run s in auto)
qed

end

interpretation tlwe_registry: invariant_registry persistentHandles starpuRunning "enter_tlwe env"
  "persistentHandleFor env" backend_inv for env :: "'a iy_env"
  by unfold_locales (auto simp: enter_tlwe_inv, simp add: backend_inv_def life_ok_def)

interpretation variable_registry: invariant_registry "\<lambda>s p. persistentVariableHandles s (fst p)"
  starpuRunning enter_variable "\<lambda>(addr, bytes). persistentVariableHandleFor bytes addr" backend_inv
  by unfold_locales (auto simp: enter_variable_inv, simp add: backend_inv_def life_ok_def)

definition valid_handles :: "nat \<Rightarrow> nat list \<Rightarrow> ('a, 'r, 'g) backend \<Rightarrow> bool" where
  "valid_handles n hs s \<longleftrightarrow> length hs = n \<and> (\<forall>h \<in> set hs. h < length (handle_table s))"

lemma tlwe_handles_spec:
  assumes "as \<noteq> []"
  shows "act_spec backend_inv (amap (persistentHandleFor env) as)
    (\<lambda>hs s. backend_inv s \<and> starpuRunning s \<and> valid_handles (length as) hs s) backend_inv"
  by (rule act_spec_weaken [OF tlwe_registry.handles_spec [OF assms]])
    (auto simp: valid_handles_def backend_inv_def registry_ok_def)

lemma variable_handles_spec:
  assumes "ps \<noteq> []"
  shows "act_spec backend_inv (amap (\<lambda>(addr, bytes). persistentVariableHandleFor bytes addr) ps)
    (\<lambda>hs s. backend_inv s \<and> starpuRunning s \<and> valid_handles (length ps) hs s) backend_inv"
  by (rule act_spec_weaken [OF variable_registry.handles_spec [OF assms]])
    (auto simp: valid_handles_def backend_inv_def registry_ok_def)

lemma append_task_inv:
  assumes inv: "backend_inv s" and up: "starpuRunning s" and T: "task_wf (length (handle_table s)) T"
  shows "backend_inv (s\<lparr>tasks := tasks s @ [T],
     states := states s @ [\<lparr>ts_finished = False, ts_error = 0, ts_output = fst (hd (it_handles T))\<rparr>],
     callback_boxes := callback_boxes s @ [length (tasks s)]\<rparr>)" (is "backend_inv ?s")
proof -
  have len: "length (states s) = length (tasks s)"
    using inv by (simp add: backend_inv_def tasks_ok_def)
  have unf: "unfinished ?s t = (if t = length (tasks s) then True else unfinished s t)" for t
    using len by (auto simp: unfinished_def nth_append less_Suc_eq)
  have "filter (unfinished ?s) [0..<length (tasks s)] = filter (unfinished s) [0..<length (tasks s)]"
    by (rule filter_cong) (auto simp: unf)
  then have "callback_boxes ?s = filter (unfinished ?s) [0..<Suc (length (tasks s))]"
    using inv unf [of "length (tasks s)"] by (simp add: backend_inv_def boxes_ok_def)
  then have "boxes_ok ?s" unfolding boxes_ok_def by simp
  moreover have "tasks_ok ?s"
    using inv T by (auto simp: backend_inv_def tasks_ok_def nth_append less_Suc_eq)
  moreover have "refs_ok ?s"
    using inv blocked_ok_mono [of "length (tasks s)" "length (handle_table s)" "starpuRunning s" _
        "Suc (length (tasks s))" "length (handle_table s)" "starpuRunning s"]
    by (auto simp: backend_inv_def refs_ok_def intro: less_SucI)
  moreover have "life_ok ?s"
    using inv up by (auto simp: backend_inv_def life_ok_def)
  moreover have "order_ok ?s"
    using inv len by (auto simp: backend_inv_def order_ok_def nth_append less_Suc_eq)
  ultimately show ?thesis
    using inv by (simp add: backend_inv_def registry_ok_def)
qed

text \<open>The modes of the call and of the codelet agree: one written buffer, then inputs.\<close>

definition codelet_fits :: "access_mode \<Rightarrow> nat \<Rightarrow> 'a iy_codelet \<Rightarrow> bool" where
  "codelet_fits m n c \<longleftrightarrow> m \<noteq> STARPU_R \<and> ic_modes c = m # replicate n STARPU_R \<and> ic_nbuffers c = Suc n"

lemma task_wf_zip:
  assumes "codelet_fits m n c" and "valid_handles (Suc n) hs s"
  shows "task_wf (length (handle_table s))
    \<lparr>it_codelet = c, it_handles = zip hs (m # replicate n STARPU_R)\<rparr>"
proof -
  obtain h hs' where hs: "hs = h # hs'" "length hs' = n"
    using assms(2) by (cases hs) (auto simp: valid_handles_def)
  have "fst p \<in> set hs' \<and> snd p = STARPU_R" if "p \<in> set (zip hs' (replicate n STARPU_R))" for p
    using that by (metis in_set_replicate prod.collapse set_zip_leftD set_zip_rightD)
  then show ?thesis
    using assms hs by (auto simp: task_wf_def codelet_fits_def valid_handles_def)
qed

lemma insert_task_spec:
  assumes "codelet_fits m n c"
  shows "act_spec (\<lambda>s. backend_inv s \<and> starpuRunning s \<and> valid_handles (Suc n) hs s)
    (insert_task env err c (zip hs (m # replicate n STARPU_R)))
    (\<lambda>t s. backend_inv s \<and> t < length (tasks s)) backend_inv"
proof -
  let ?hs = "zip hs (m # replicate n STARPU_R)"
  have ok: "backend_inv (s\<lparr>attempts := Suc (attempts s), tasks := tasks s @ [\<lparr>it_codelet = c, it_handles = ?hs\<rparr>],
        states := states s @ [\<lparr>ts_finished = False, ts_error = 0, ts_output = fst (hd ?hs)\<rparr>],
        callback_boxes := callback_boxes s @ [length (tasks s)]\<rparr>)"
    if "backend_inv s" "starpuRunning s" "valid_handles (Suc n) hs s" for s :: "('a, 'b, 'c) backend"
    using append_task_inv [OF that(1,2) task_wf_zip [OF assms that(3)]]
    by (rule inv_frame) (simp add: same_core_def)
  show ?thesis
    by (rule act_specI)
      (auto simp: insert_task_def Let_def update_memory_inv(3) dest!: ok split: if_split_asm)
qed

lemma submitAsync_spec:
  assumes "codelet_fits STARPU_W n c" and "length as = Suc n"
  shows "act_spec backend_inv (submitAsync env c as) (\<lambda>t s. backend_inv s \<and> t < length (tasks s)) backend_inv"
  unfolding submitAsync_def
proof (rule act_spec_bind)
  show "act_spec backend_inv (amap (persistentHandleFor env) as)
      (\<lambda>hs s. backend_inv s \<and> starpuRunning s \<and> valid_handles (length as) hs s) backend_inv"
    using assms(2) by (intro tlwe_handles_spec) auto
  fix hs
  show "act_spec (\<lambda>s. backend_inv s \<and> starpuRunning s \<and> valid_handles (length as) hs s)
      (insert_task env SubmitFailed c (zip hs (STARPU_W # replicate (length hs - 1) STARPU_R)))
      (\<lambda>t s. backend_inv s \<and> t < length (tasks s)) backend_inv"
  proof (cases "length hs = Suc n")
    case True
    then show ?thesis
      using insert_task_spec [OF assms(1), of hs env SubmitFailed] assms(2) by simp
  next
    case False
    then show ?thesis using assms(2) by (simp add: act_spec_def valid_handles_def)
  qed
qed

lemma submitVariableAsync_spec:
  assumes "codelet_fits m n c" and "length ps = Suc n"
  shows "act_spec backend_inv (submitVariableAsync env c ps (m # replicate n STARPU_R))
    (\<lambda>t s. backend_inv s \<and> t < length (tasks s)) backend_inv"
  unfolding submitVariableAsync_def
proof (rule act_spec_bind)
  show "act_spec backend_inv (amap (\<lambda>(addr, bytes). persistentVariableHandleFor bytes addr) ps)
      (\<lambda>hs s. backend_inv s \<and> starpuRunning s \<and> valid_handles (Suc n) hs s) backend_inv"
    using variable_handles_spec [of ps] assms(2) by fastforce
qed (rule insert_task_spec [OF assms(1)])

lemma muxWoSE_fits: "codelet_fits STARPU_W 3 muxWoSEStarpuCodelet"
  by (simp add: codelet_fits_def muxWoSEStarpuCodelet_def makeCodelet_def numeral_3_eq_3)

lemma enter_tlwe_variable [simp]:
  "persistentVariableHandles (fold (enter_tlwe env) as s) = persistentVariableHandles s"
  by (induction as arbitrary: s) (simp_all add: enter_tlwe_def)

lemma variable_handle_spec:
  "act_spec backend_inv (persistentVariableHandleFor bytes a)
     (\<lambda>h s. backend_inv s \<and> persistentVariableHandles s a = Some h) backend_inv"
proof (rule act_specI)
  fix s h s'
  assume inv: "backend_inv s" and run: "persistentVariableHandleFor bytes a s = (Inr h, s')"
  then have "amap (\<lambda>(addr, bytes). persistentVariableHandleFor bytes addr) [(a, bytes)] s = (Inr [h], s')"
    by (simp add: abind_def act_simps)
  from act_spec_Inr [OF variable_registry.handles_spec inv this]
  show "backend_inv s' \<and> persistentVariableHandles s' a = Some h" by auto
next
  fix s e s'
  assume inv: "backend_inv s" and run: "persistentVariableHandleFor bytes a s = (Inl e, s')"
  then have "amap (\<lambda>(addr, bytes). persistentVariableHandleFor bytes addr) [(a, bytes)] s = (Inl e, s')"
    by (simp add: abind_def act_simps)
  from act_spec_Inl [OF variable_registry.handles_spec inv this] show "backend_inv s'" by simp
qed

lemma mux_handles_spec:
  assumes "as \<noteq> []"
  shows "act_spec (\<lambda>s. backend_inv s \<and> persistentVariableHandles s out = Some h)
     (amap (persistentHandleFor env) as)
     (\<lambda>hs s. backend_inv s \<and> starpuRunning s \<and> valid_handles (Suc (length as)) (h # hs) s) backend_inv"
proof (rule act_specI)
  fix s hs s'
  assume s: "backend_inv s \<and> persistentVariableHandles s out = Some h"
    and run: "amap (persistentHandleFor env) as s = (Inr hs, s')"
  have "backend_inv s' \<and> starpuRunning s' \<and> valid_handles (length as) hs s'"
    using act_spec_Inr [OF tlwe_handles_spec [OF assms] _ run] s by blast
  moreover from conjunct1 [OF s] assms have "persistentVariableHandles s' = persistentVariableHandles s"
    by (rule tlwe_registry.handles_for_cases [where env = env]) (use run in auto)
  ultimately show "backend_inv s' \<and> starpuRunning s' \<and> valid_handles (Suc (length as)) (h # hs) s'"
    using s by (auto simp: valid_handles_def backend_inv_def registry_ok_def)
next
  fix s e s'
  assume "backend_inv s \<and> persistentVariableHandles s out = Some h"
    and "amap (persistentHandleFor env) as s = (Inl e, s')"
  then show "backend_inv s'" using act_spec_Inl [OF tlwe_handles_spec [OF assms]] by blast
qed

lemma submitMuxWoSEAsync_spec:
  "act_spec backend_inv (submitMuxWoSEAsync env out sel whenTrue whenFalse)
    (\<lambda>t s. backend_inv s \<and> t < length (tasks s)) backend_inv"
  unfolding submitMuxWoSEAsync_def
proof (rule act_spec_bind [OF variable_handle_spec], rule act_spec_bind)
  fix h
  show "act_spec (\<lambda>s. backend_inv s \<and> persistentVariableHandles s out = Some h)
      (amap (persistentHandleFor env) [sel, whenTrue, whenFalse])
      (\<lambda>hs s. backend_inv s \<and> starpuRunning s \<and> valid_handles 4 (h # hs) s) backend_inv"
    by (rule act_spec_weaken [OF mux_handles_spec [of "[sel, whenTrue, whenFalse]" out h env]])
      (simp_all add: valid_handles_def)
  fix hs
  show "act_spec (\<lambda>s. backend_inv s \<and> starpuRunning s \<and> valid_handles 4 (h # hs) s)
      (insert_task env RamMuxSubmitFailed muxWoSEStarpuCodelet
        ((h, STARPU_W) # map (\<lambda>h. (h, STARPU_R)) hs))
      (\<lambda>t s. backend_inv s \<and> t < length (tasks s)) backend_inv"
  proof (cases "length hs = 3")
    case True
    then have "(h, STARPU_W) # map (\<lambda>h. (h, STARPU_R)) hs = zip (h # hs) (STARPU_W # replicate 3 STARPU_R)"
      by (simp add: zip_replicate2)
    then show ?thesis
      using insert_task_spec [OF muxWoSE_fits, of "h # hs" env RamMuxSubmitFailed] by simp
  next
    case False
    then show ?thesis by (simp add: act_spec_def valid_handles_def)
  qed
qed

lemma captureTask_inv:
  assumes "backend_inv s" and "captureActive s" and "t < length (tasks s)"
  shows "backend_inv (captureTask t s)"
proof -
  have "backend_inv (s\<lparr>captureActive := True, capturedTask := Some t\<rparr>)"
    using assms by (simp add: capture_inv)
  then show ?thesis
    by (rule inv_frame) (simp add: same_core_def captureTask_def assms)
qed

lemma deliver_spec:
  "act_spec (\<lambda>s. backend_inv s \<and> t < length (tasks s)) (deliver t) (\<lambda>_. backend_inv) backend_inv"
  by (auto simp: act_spec_def deliver_def captureTask_inv block_inv)

lemma captured_inv:
  "backend_inv s \<Longrightarrow> capturedTask s = Some t \<Longrightarrow> backend_inv (s\<lparr>blocked_in := Some (WaitForTask t)\<rparr>)"
  by (intro block_inv) (auto simp: backend_inv_def refs_ok_def)

lemma codelets_fit:
  "codelet_fits STARPU_W 2 (codeletFor cuf m g)" "codelet_fits STARPU_W 1 notStarpuCodelet"
  "codelet_fits STARPU_W 3 (muxStarpuCodelet cuf)" "codelet_fits STARPU_W 3 (cmuxFFTStarpuCodelet cuf var)"
  "codelet_fits STARPU_RW 2 (cmuxFFTInPlaceTrueStarpuCodelet cuf var)"
  "codelet_fits STARPU_RW 2 (cmuxFFTInPlaceFalseStarpuCodelet cuf var)"
  by (cases g; simp add: iy_binary_defs binary_codelet_def codelet_fits_def with_cuda_def makeCodelet_def
      addCudaImplementation_def numeral_2_eq_2)
    (simp_all add: codelet_fits_def notStarpuCodelet_def muxStarpuCodelet_def cmux_codelet_defs
      with_cuda_def makeCodelet_def addCudaImplementation_def numeral_2_eq_2 numeral_3_eq_3)

lemma gate_calls_spec:
  "act_spec backend_inv (runIyokanStarpuBinaryGate env g out l r k) (\<lambda>_. backend_inv) backend_inv"
  "act_spec backend_inv (runIyokanStarpuNot env out i) (\<lambda>_. backend_inv) backend_inv"
  "act_spec backend_inv (runIyokanStarpuMux env out sel t f k) (\<lambda>_. backend_inv) backend_inv"
  "act_spec backend_inv (runIyokanStarpuMuxWoSE env out sel t f k) (\<lambda>_. backend_inv) backend_inv"
proof -
  have rt: "act_spec backend_inv (ensureStarpuRuntime env) (\<lambda>_. backend_inv) backend_inv"
    by (rule act_spec_weaken [OF ensureStarpuRuntime_spec]) auto
  show "act_spec backend_inv (runIyokanStarpuBinaryGate env g out l r k) (\<lambda>_. backend_inv) backend_inv"
    unfolding runIyokanStarpuBinaryGate_def
    by (intro act_spec_bind [OF ensureStarpu_spec] act_spec_bind [OF submitAsync_spec [OF codelets_fit(1)]]
        deliver_spec) simp
  show "act_spec backend_inv (runIyokanStarpuNot env out i) (\<lambda>_. backend_inv) backend_inv"
    unfolding runIyokanStarpuNot_def
    by (intro act_spec_bind [OF rt] act_spec_bind [OF submitAsync_spec [OF codelets_fit(2)]]
        deliver_spec) simp
  show "act_spec backend_inv (runIyokanStarpuMux env out sel t f k) (\<lambda>_. backend_inv) backend_inv"
    unfolding runIyokanStarpuMux_def
    by (intro act_spec_bind [OF ensureStarpu_spec] act_spec_bind [OF submitAsync_spec [OF codelets_fit(3)]]
        deliver_spec) simp
  show "act_spec backend_inv (runIyokanStarpuMuxWoSE env out sel t f k) (\<lambda>_. backend_inv) backend_inv"
    unfolding runIyokanStarpuMuxWoSE_def
    by (intro act_spec_bind [OF ensureStarpu_spec] act_spec_bind [OF submitMuxWoSEAsync_spec] deliver_spec)
qed

lemma cmux_call_spec:
  "act_spec backend_inv (runIyokanStarpuCMUXFFT env out sel t f) (\<lambda>_. backend_inv) backend_inv"
proof -
  have rt: "act_spec backend_inv (ensureStarpuRuntime env) (\<lambda>_. backend_inv) backend_inv"
    by (rule act_spec_weaken [OF ensureStarpuRuntime_spec]) auto
  note two = submitVariableAsync_spec [where n = 2, simplified numeral_2_eq_2 replicate.simps]
    and three = submitVariableAsync_spec [where n = 3, simplified numeral_3_eq_3 replicate.simps]
  show ?thesis
    unfolding runIyokanStarpuCMUXFFT_def Let_def
    using codelets_fit(4-6) [of "se_cufhepp env" "se_cuda_cmux env"]
    by (auto intro!: act_spec_bind [OF rt] act_spec_bind [OF _ deliver_spec] two three
        simp: numeral_2_eq_2 numeral_3_eq_3)
qed

lemma other_calls_spec:
  "act_spec backend_inv (configureIyokanStarpu c e) (\<lambda>_. backend_inv) backend_inv"
  "act_spec backend_inv (prepareIyokanStarpu env k) (\<lambda>_. backend_inv) backend_inv"
  "act_spec backend_inv shutdownIyokanStarpu (\<lambda>_. backend_inv) backend_inv"
  "act_spec backend_inv beginIyokanStarpuCapture (\<lambda>_. backend_inv) backend_inv"
  "act_spec backend_inv endIyokanStarpuCapture (\<lambda>_. backend_inv) backend_inv"
  "act_spec backend_inv synchronizeIyokanStarpuCapture (\<lambda>_. backend_inv) backend_inv"
  "act_spec backend_inv (markIyokanTLWEHostWrite a) (\<lambda>_. backend_inv) backend_inv"
  "act_spec backend_inv (markVariableHostWrite a) (\<lambda>_. backend_inv) backend_inv"
  "act_spec (\<lambda>s. backend_inv s \<and> t < length (tasks s)) (synchronizeOutput t) (\<lambda>_. backend_inv) backend_inv"
proof -
  show "act_spec backend_inv (configureIyokanStarpu c e) (\<lambda>_. backend_inv) backend_inv"
    by (auto simp: act_spec_def configureIyokanStarpu_def update_memory_inv(4))
  show "act_spec backend_inv (prepareIyokanStarpu env k) (\<lambda>_. backend_inv) backend_inv"
    unfolding prepareIyokanStarpu_def by (rule ensureStarpu_spec)
  show "act_spec backend_inv shutdownIyokanStarpu (\<lambda>_. backend_inv) backend_inv"
    by (auto simp: act_spec_def shutdownIyokanStarpu_def block_inv)
  show "act_spec backend_inv beginIyokanStarpuCapture (\<lambda>_. backend_inv) backend_inv"
    by (auto simp: act_spec_def beginIyokanStarpuCapture_def capture_inv)
  show "act_spec backend_inv endIyokanStarpuCapture (\<lambda>_. backend_inv) backend_inv"
    by (auto simp: act_spec_def endIyokanStarpuCapture_def capture_inv)
  show "act_spec backend_inv synchronizeIyokanStarpuCapture (\<lambda>_. backend_inv) backend_inv"
    by (auto simp: act_spec_def synchronizeIyokanStarpuCapture_def captured_inv split: option.split)
  show "act_spec backend_inv (markIyokanTLWEHostWrite a) (\<lambda>_. backend_inv) backend_inv"
    by (auto simp: act_spec_def markIyokanTLWEHostWrite_def split: option.split)
       (rule block_inv; simp add: backend_inv_def registry_ok_def)
  show "act_spec backend_inv (markVariableHostWrite a) (\<lambda>_. backend_inv) backend_inv"
    by (auto simp: act_spec_def markVariableHostWrite_def split: option.split)
       (rule block_inv; simp add: backend_inv_def registry_ok_def)
  show "act_spec (\<lambda>s. backend_inv s \<and> t < length (tasks s)) (synchronizeOutput t) (\<lambda>_. backend_inv) backend_inv"
    by (auto simp: act_spec_def synchronizeOutput_def block_inv)
qed

end
