(* ===== verification/Iyokan_Client.thy ===== *)
theory Iyokan_Client
  imports Iyokan_Runtime
begin

text \<open>
  What a client of the KVSP runtime (src/src/iyokan-starpu-codelets.cpp) can rely
  on: the invariant holds in every reachable state, and every reachable state
  represents the memory that running all the submitted gates in order would
  leave, whatever the order in which StarPU completes them.
\<close>

section \<open>The invariant of reachable states\<close>

lemma iy_call_inv:
  assumes "backend_inv s" and "\<forall>t. c = Synchronize t \<longrightarrow> t < length (tasks s)"
  shows "backend_inv (snd (iy_call env c s))"
proof -
  note ret = act_spec_return [of backend_inv "\<lambda>_. backend_inv" None backend_inv]
  note seq = act_specD [OF act_spec_bind [OF _ ret]]
  show ?thesis
    using assms
    by (cases c) (auto simp: iy_call_def intro!: gate_calls_spec cmux_call_spec other_calls_spec
        intro: seq act_specD)
qed

lemma unfinished_complete:
  assumes "tasks_ok s"
  shows "unfinished (complete_task im place t s) u \<longleftrightarrow> unfinished s u \<and> u \<noteq> t"
  using assms by (auto simp: unfinished_def complete_task_def taskCompleted_def tasks_ok_def nth_list_update_in
      split: if_split_asm)

lemma complete_task_fields [simp]:
  "tasks (complete_task im place t s) = tasks s"
  "currentEvalKey (complete_task im place t s) = currentEvalKey s"
  "handle_table (complete_task im place t s) = handle_table s"
  "persistentHandles (complete_task im place t s) = persistentHandles s"
  "persistentVariableHandles (complete_task im place t s) = persistentVariableHandles s"
  "host (complete_task im place t s) = host s" "blocked_in (complete_task im place t s) = blocked_in s"
  "captureActive (complete_task im place t s) = captureActive s"
  "capturedTask (complete_task im place t s) = capturedTask s"
  "starpuRunning (complete_task im place t s) = starpuRunning s"
  by (simp_all add: complete_task_def taskCompleted_def)

lemma complete_task_inv:
  assumes inv: "backend_inv s" and t: "can_complete s t"
  shows "backend_inv (complete_task im place t s)" (is "backend_inv ?s")
proof -
  have fields: "tasks ?s = tasks s" "handle_table ?s = handle_table s"
    "states ?s = (states s)[t := (states s ! t)\<lparr>ts_finished := True\<rparr>]"
    "callback_boxes ?s = remove1 t (callback_boxes s)"
    by (simp_all add: complete_task_def taskCompleted_def)
  have ok: "tasks_ok s" and len: "length (states s) = length (tasks s)"
    using inv by (auto simp: backend_inv_def tasks_ok_def)
  have "tasks_ok ?s"
    using ok by (auto simp: tasks_ok_def fields nth_list_update_in)
  moreover have "boxes_ok ?s"
    using inv by (simp add: backend_inv_def boxes_ok_def fields unfinished_complete [OF ok]
        distinct_remove1_removeAll removeAll_filter_not_eq) (rule filter_cong; auto simp: unfinished_complete [OF ok])
  moreover have "order_ok ?s"
  proof -
    have "ts_finished (states ?s ! u)"
      if "u < v" "v < length (tasks s)" "ts_finished (states ?s ! v)"
        "conflict iy_rd iy_wr (task_at s u) (task_at s v)" for u v
    proof (cases "v = t")
      case True
      with that t have "\<not> unfinished s u" by (auto simp: can_complete_def)
      with that(1,2) len True show ?thesis by (auto simp: unfinished_def fields)
    next
      case False
      then have "ts_finished (states s ! u)"
        using inv that len by (auto simp: backend_inv_def order_ok_def fields nth_list_update_in)
      with that(1,2) len show ?thesis by (auto simp: fields nth_list_update_in)
    qed
    then show ?thesis by (simp add: order_ok_def fields)
  qed
  moreover have "life_ok ?s"
  proof -
    have "\<And>u. \<not> unfinished s u \<Longrightarrow> \<not> unfinished ?s u" by (simp add: unfinished_complete [OF ok])
    then show ?thesis
      using inv by (auto simp: backend_inv_def life_ok_def complete_task_def taskCompleted_def)
  qed
  ultimately show ?thesis
    using inv by (auto simp: backend_inv_def registry_ok_def refs_ok_def complete_task_def taskCompleted_def)
qed

lemma record_error_inv:
  assumes "backend_inv s"
  shows "backend_inv (s\<lparr>states := (states s)[t := (states s ! t)\<lparr>ts_error := e\<rparr>]\<rparr>)" (is "backend_inv ?s")
proof -
  have fin: "ts_finished (states ?s ! u) = ts_finished (states s ! u)"
    and out: "ts_output (states ?s ! u) = ts_output (states s ! u)" for u
    by (simp_all add: proj_nth_list_update)
  have "unfinished ?s = unfinished s" using fin by (auto simp: unfinished_def fun_eq_iff)
  moreover have "order_ok ?s" using assms fin by (simp add: backend_inv_def order_ok_def)
  moreover have "tasks_ok ?s" using assms out by (simp add: backend_inv_def tasks_ok_def)
  ultimately show ?thesis
    using assms by (simp add: backend_inv_def registry_ok_def boxes_ok_def life_ok_def refs_ok_def)
qed

lemma acquire_inv:
  "backend_inv s \<Longrightarrow> backend_inv (snd (acquire_read env t s))"
  "backend_inv s \<Longrightarrow> backend_inv (snd (acquire_write env err h s))"
  by (simp_all add: acquire_read_def acquire_write_def Let_def record_error_inv update_memory_inv)

lemma unregister_all_dead:
  assumes "registry_ok s" and "h < length (handle_table s)"
  shows "\<not> hi_live (handle_table (unregister_all s) ! h)"
proof (cases "hi_live (handle_table s ! h)")
  case True
  then have "h \<in> ran (persistentHandles s) \<union> ran (persistentVariableHandles s)"
    using assms unfolding registry_ok_def ran_def by blast
  then show ?thesis using assms(2) by (simp add: unregister_all_def)
qed (use assms(2) in \<open>simp add: unregister_all_def\<close>)

lemma finish_shutdown_inv:
  assumes inv: "backend_inv s" and idle: "\<forall>t. \<not> unfinished s t" and "starpuRunning s"
    and "blocked_in s = None"
  shows "backend_inv (finish_shutdown env s)" (is "backend_inv ?s")
proof -
  have fields: "tasks ?s = tasks s" "states ?s = states s" "callback_boxes ?s = callback_boxes s"
    "length (handle_table ?s) = length (handle_table s)" "persistentHandles ?s = Map.empty"
    "persistentVariableHandles ?s = Map.empty" "capturedTask ?s = capturedTask s"
    "captureActive ?s = captureActive s" "blocked_in ?s = None" "\<not> starpuRunning ?s"
    "starpuInitOnce ?s = starpuInitOnce s" "currentEvalKey ?s = None"
    using assms(4) by (simp_all add: finish_shutdown_def unregister_all_def cleanupIyokanCufhepp_def Let_def)
  have "unfinished ?s = unfinished s" by (rule unfinished_cong) (simp_all add: fields)
  moreover have "\<not> hi_live (handle_table ?s ! h)" if h: "h < length (handle_table s)" for h
    using unregister_all_dead [OF _ h] inv
    by (simp add: backend_inv_def finish_shutdown_def cleanupIyokanCufhepp_def Let_def)
  ultimately show ?thesis
    using inv idle assms(3)
    by (simp add: backend_inv_def registry_ok_def tasks_ok_def boxes_ok_def life_ok_def refs_ok_def
        order_ok_def fields)
qed

lemma resume_inv:
  assumes inv: "backend_inv s" and b: "blocked_in s = Some b" and ready: "resumable s b"
  shows "backend_inv (snd (resume env b s))"
proof (cases b)
  case WaitForAll
  let ?s = "s\<lparr>blocked_in := None\<rparr>"
  have "starpuRunning s" using inv b WaitForAll by (auto simp: backend_inv_def refs_ok_def)
  moreover have "\<forall>t. \<not> unfinished ?s t"
    using ready WaitForAll by (simp add: resumable_def unfinished_def)
  ultimately show ?thesis
    using finish_shutdown_inv [OF unblock_inv [OF inv]] WaitForAll by (simp add: resume_def)
qed (simp_all add: resume_def acquire_inv unblock_inv inv)

lemma iy_step_inv: "iy_step im env place s s' \<Longrightarrow> backend_inv s \<Longrightarrow> backend_inv s'"
  by (induction rule: iy_step.induct)
    (simp_all add: iy_call_inv update_memory_inv complete_task_inv resume_inv)

lemma initial_inv: "backend_inv (initial_backend e mem)"
  by (simp add: inv_defs initial_backend_def unfinished_def)

lemma iy_reachable_inv: "iy_reachable im env place s \<Longrightarrow> backend_inv s"
  by (induction rule: iy_reachable.induct) (auto simp: initial_inv dest: iy_step_inv)

section \<open>The memory a state represents\<close>

text \<open>
  The contents of the handles once the submitted tasks have all been run in
  order, and from it the value of the object at an address.
\<close>

definition pending :: "('a, 'r, 'g) backend \<Rightarrow> nat list" where
  "pending s = filter (unfinished s) [0..<length (tasks s)]"

definition seq_data ::
  "(nat, 'w::len word, 'r, 'g) iy_machine \<Rightarrow> (nat \<Rightarrow> arch \<times> int) \<Rightarrow> ('w word, 'r, 'g) backend \<Rightarrow>
   nat \<Rightarrow> ('w word, 'r, 'g) cell" where
  "seq_data im place s =
     run_in_order (run_iy_task im (currentEvalKey s) place) (map (task_at s) (pending s)) (data s)"

definition mem ::
  "(nat, 'w::len word, 'r, 'g) iy_machine \<Rightarrow> (nat \<Rightarrow> arch \<times> int) \<Rightarrow> ('w word, 'r, 'g) backend \<Rightarrow>
   nat \<Rightarrow> ('w word, 'r, 'g) cell" where
  "mem im place s a = (case persistentHandles s a of
      Some h \<Rightarrow> seq_data im place s h
    | None \<Rightarrow> (case persistentVariableHandles s a of
        Some h \<Rightarrow> seq_data im place s h
      | None \<Rightarrow> host s a))"

text \<open>
  The addresses in \<open>tls\<close> hold level-0 samples, the others ring samples: a C++
  object has one type, so no address is registered both ways.
\<close>

definition typed :: "nat set \<Rightarrow> ('a, 'r, 'g) backend \<Rightarrow> bool" where
  "typed tls s \<longleftrightarrow> dom (persistentHandles s) \<subseteq> tls \<and> dom (persistentVariableHandles s) \<inter> tls = {}"

lemma pending_less: "t \<in> set (pending s) \<Longrightarrow> t < length (tasks s)"
  and pending_unfinished: "t \<in> set (pending s) \<longleftrightarrow> unfinished s t"
  by (auto simp: pending_def unfinished_def)

lemma pending_cong: "tasks s' = tasks s \<Longrightarrow> states s' = states s \<Longrightarrow> pending s' = pending s"
  by (simp add: pending_def unfinished_cong [of s' s])

lemma pending_boxes: "backend_inv s \<Longrightarrow> pending s = callback_boxes s"
  by (simp add: backend_inv_def boxes_ok_def pending_def)

lemma accesses_bound:
  assumes "backend_inv s" and "unfinished s t" and "h \<in> iy_rd (task_at s t) \<union> iy_wr (task_at s t)"
  shows "h < length (handle_table s)"
  using assms by (auto simp: backend_inv_def tasks_ok_def task_wf_def unfinished_def iy_rd_def iy_wr_def)

lemma seq_data_cong:
  "tasks s' = tasks s \<Longrightarrow> states s' = states s \<Longrightarrow> data s' = data s \<Longrightarrow> currentEvalKey s' = currentEvalKey s \<Longrightarrow>
   seq_data im place s' = seq_data im place s"
  by (simp add: seq_data_def pending_cong [of s' s])

text \<open>Setting a handle that no pending task accesses.\<close>

lemma seq_data_upd:
  assumes "\<forall>t. unfinished s t \<longrightarrow> h \<notin> iy_rd (task_at s t) \<union> iy_wr (task_at s t)"
  shows "seq_data im place (s\<lparr>data := (data s)(h := v)\<rparr>) = (seq_data im place s)(h := v)"
proof -
  have "pending (s\<lparr>data := (data s)(h := v)\<rparr>) = pending s" by (rule pending_cong) simp_all
  moreover have "\<forall>t \<in> set (map (task_at s) (pending s)). h \<notin> iy_rd t \<union> iy_wr t"
    using assms by (auto simp: pending_unfinished)
  ultimately show ?thesis
    using iyokan.run_in_order_upd [of "map (task_at s) (pending s)" h] by (simp add: seq_data_def)
qed

lemma seq_data_readable:
  assumes "readable s h"
  shows "seq_data im place s h = data s h"
  using assms iyokan.run_in_order_frame [of "map (task_at s) (pending s)" h]
  by (auto simp: seq_data_def readable_def pending_unfinished)

text \<open>Completing a task that may complete does not change the outcome.\<close>

lemma seq_data_complete:
  assumes inv: "backend_inv s" and t: "can_complete s t"
  shows "seq_data im place (complete_task im place t s) = seq_data im place s"
proof -
  have ok: "tasks_ok s" using inv by (simp add: backend_inv_def)
  have n: "t < length (tasks s)" "unfinished s t" using t by (auto simp: can_complete_def unfinished_def)
  let ?us = "filter (unfinished s) [0..<t]" and ?vs = "filter (unfinished s) [Suc t..<length (tasks s)]"
  have "[0..<length (tasks s)] = [0..<t] @ t # [Suc t..<length (tasks s)]"
    using n(1) upt_add_eq_append [of 0 t "length (tasks s) - t"] by (simp add: upt_conv_Cons)
  then have split: "pending s = ?us @ t # ?vs" using n by (simp add: pending_def)
  have "pending (complete_task im place t s) = filter (\<lambda>u. u \<noteq> t) (pending s)"
    unfolding pending_def filter_filter complete_task_fields
    by (rule filter_cong) (auto simp: unfinished_complete [OF ok])
  also have "\<dots> = ?us @ ?vs" unfolding split by (auto intro!: arg_cong2 [where f = append] filter_cong)
  finally have rest: "pending (complete_task im place t s) = ?us @ ?vs" .
  have "\<forall>u \<in> set (map (task_at s) ?us). \<not> conflict iy_rd iy_wr u (task_at s t)"
    using t by (auto simp: can_complete_def)
  from iyokan.run_first [OF this, of im "currentEvalKey s" place "map (task_at s) ?vs" "data s"]
  show ?thesis
    by (simp add: seq_data_def rest) (simp add: split complete_task_def taskCompleted_def)
qed

text \<open>The handle that stands for an address.\<close>

definition handle_of :: "('a, 'r, 'g) backend \<Rightarrow> nat \<rightharpoonup> nat" where
  "handle_of s a = (case persistentHandles s a of Some h \<Rightarrow> Some h | None \<Rightarrow> persistentVariableHandles s a)"

lemma mem_handle_of: "mem im place s a = (case handle_of s a of Some h \<Rightarrow> seq_data im place s h | None \<Rightarrow> host s a)"
  by (simp add: mem_def handle_of_def split: option.split)

lemma handle_of_cong:
  assumes "persistentHandles s' = persistentHandles s"
    "persistentVariableHandles s' = persistentVariableHandles s"
  shows "handle_of s' = handle_of s"
  unfolding handle_of_def [abs_def] assms by (rule refl)

lemma handle_of_ok:
  assumes "backend_inv s" and "handle_of s a = Some h"
  shows "h < length (handle_table s)" "hi_addr (handle_table s ! h) = a" "hi_live (handle_table s ! h)"
  using assms by (auto simp: handle_of_def backend_inv_def registry_ok_def split: option.split_asm)

lemma handle_of_typed:
  assumes "typed tls s"
  shows "persistentHandles s a = Some h \<Longrightarrow> handle_of s a = Some h"
    and "persistentVariableHandles s a = Some h \<Longrightarrow> handle_of s a = Some h"
  using assms by (auto simp: handle_of_def typed_def dom_def split: option.split)

lemma mem_cong:
  assumes "seq_data im place s' = seq_data im place s" "persistentHandles s' = persistentHandles s"
    "persistentVariableHandles s' = persistentVariableHandles s" "host s' = host s"
  shows "mem im place s' = mem im place s"
  unfolding mem_def [abs_def] assms by (rule refl)

text \<open>Registering a new handle leaves the memory alone: the handle starts with the host contents.\<close>

lemma mem_new_handle:
  assumes inv: "backend_inv s" and free: "handle_of s a = None"
    and s': "tasks s' = tasks s" "states s' = states s" "currentEvalKey s' = currentEvalKey s"
      "data s' = (data s)(length (handle_table s) := host s a)" "host s' = host s"
    and h: "handle_of s' = (handle_of s)(a \<mapsto> length (handle_table s))"
  shows "mem im place s' = mem im place s"
proof
  fix b
  let ?n = "length (handle_table s)"
  have "seq_data im place s' = seq_data im place (s\<lparr>data := (data s)(?n := host s a)\<rparr>)"
    using s' by (intro seq_data_cong) simp_all
  also have "\<dots> = (seq_data im place s)(?n := host s a)"
    using accesses_bound [OF inv] by (intro seq_data_upd) blast
  finally have seq: "seq_data im place s' = (seq_data im place s)(?n := host s a)" .
  show "mem im place s' b = mem im place s b"
  proof (cases "b = a")
    case True
    then show ?thesis using free h seq by (simp add: mem_handle_of)
  next
    case False
    then show ?thesis
      using h seq s' handle_of_ok(1) [OF inv, of b]
      by (auto simp: mem_handle_of split: option.split)
  qed
qed

text \<open>What a submission keeps: the client's fields, the key and the tasks so far.\<close>

definition same_client :: "('a, 'r, 'g) backend \<Rightarrow> ('a, 'r, 'g) backend \<Rightarrow> bool" where
  "same_client s s' \<longleftrightarrow>
     captureActive s' = captureActive s \<and> capturedTask s' = capturedTask s \<and> blocked_in s' = blocked_in s \<and>
     currentEvalKey s' = currentEvalKey s \<and> starpuRunning s' = starpuRunning s \<and> host s' = host s"

definition same_view ::
  "(nat, 'w::len word, 'r, 'g) iy_machine \<Rightarrow> (nat \<Rightarrow> arch \<times> int) \<Rightarrow> nat set \<Rightarrow>
   ('w word, 'r, 'g) backend \<Rightarrow> ('w word, 'r, 'g) backend \<Rightarrow> bool" where
  "same_view im place tls s s' \<longleftrightarrow>
     backend_inv s' \<and> typed tls s' \<and> mem im place s' = mem im place s \<and> same_client s s' \<and>
     tasks s' = tasks s \<and> (\<forall>a h. handle_of s a = Some h \<longrightarrow> handle_of s' a = Some h)"

lemma same_view_refl: "backend_inv s \<Longrightarrow> typed tls s \<Longrightarrow> same_view im place tls s s"
  by (simp add: same_view_def same_client_def)

lemma same_view_trans:
  "same_view im place tls s s' \<Longrightarrow> same_view im place tls s' s'' \<Longrightarrow> same_view im place tls s s''"
  by (simp add: same_view_def same_client_def)

lemma enter_tlwe_view:
  assumes "backend_inv s" "typed tls s" "starpuRunning s" "a \<in> tls"
  shows "same_view im place tls s (enter_tlwe env a s)" (is "same_view _ _ _ s ?s")
proof (cases "persistentHandles s a")
  case None
  have free: "handle_of s a = None" using assms None by (auto simp: handle_of_def typed_def)
  then have new: "handle_of ?s = (handle_of s)(a \<mapsto> length (handle_table s))"
    by (auto simp: handle_of_def [abs_def] enter_tlwe_def None fun_eq_iff split: option.split)
  have "mem im place ?s = mem im place s"
    by (rule mem_new_handle [OF assms(1) free _ _ _ _ _ new]) (simp_all add: enter_tlwe_def None)
  moreover have "typed tls ?s" "same_client s ?s" "tasks ?s = tasks s"
    using assms(2,4) by (simp_all add: typed_def same_client_def enter_tlwe_def None)
  ultimately show ?thesis
    using enter_tlwe_inv [OF assms(1,3)] free new by (simp add: same_view_def)
qed (use assms in \<open>simp add: enter_tlwe_def same_view_refl\<close>)

lemma enter_variable_view:
  assumes "backend_inv s" "typed tls s" "starpuRunning s" "fst p \<notin> tls"
  shows "same_view im place tls s (enter_variable p s)" (is "same_view _ _ _ s ?s")
proof (cases "persistentVariableHandles s (fst p)")
  case None
  have free: "handle_of s (fst p) = None" and "persistentHandles s (fst p) = None"
    using assms None by (auto simp: handle_of_def typed_def split: option.split)
  then have new: "handle_of ?s = (handle_of s)(fst p \<mapsto> length (handle_table s))"
    by (simp add: handle_of_def [abs_def] enter_variable_def None fun_eq_iff split: option.split)
  have "mem im place ?s = mem im place s"
    by (rule mem_new_handle [OF assms(1) free _ _ _ _ _ new]) (simp_all add: enter_variable_def None)
  moreover have "typed tls ?s" "same_client s ?s" "tasks ?s = tasks s"
    using assms(2,4) by (simp_all add: typed_def same_client_def enter_variable_def None)
  ultimately show ?thesis
    using enter_variable_inv [OF assms(1,3)] free new by (simp add: same_view_def)
qed (use assms in \<open>simp add: enter_variable_def same_view_refl\<close>)

lemma enter_tlwes_view:
  assumes "backend_inv s" "typed tls s" "starpuRunning s" "set as \<subseteq> tls"
  shows "same_view im place tls s (fold (enter_tlwe env) as s)"
  using assms
proof (induction as arbitrary: s)
  case (Cons a as)
  then have v: "same_view im place tls s (enter_tlwe env a s)" by (simp add: enter_tlwe_view)
  with Cons have "same_view im place tls (enter_tlwe env a s) (fold (enter_tlwe env) as (enter_tlwe env a s))"
    by (simp add: same_view_def same_client_def)
  with v show ?case by (auto intro: same_view_trans)
qed (simp add: same_view_refl)

lemma enter_variables_view:
  assumes "backend_inv s" "typed tls s" "starpuRunning s" "fst ` set ps \<inter> tls = {}"
  shows "same_view im place tls s (fold enter_variable ps s)"
  using assms
proof (induction ps arbitrary: s)
  case (Cons p ps)
  then have v: "same_view im place tls s (enter_variable p s)" by (simp add: enter_variable_view)
  with Cons have "same_view im place tls (enter_variable p s) (fold enter_variable ps (enter_variable p s))"
    by (simp add: same_view_def same_client_def)
  with v show ?case by (auto intro: same_view_trans)
qed (simp add: same_view_refl)

text \<open>The lookups of a submission: the handles they return stand for the addresses.\<close>

lemma tlwe_lookups:
  assumes "backend_inv s" "typed tls s" "set as \<subseteq> tls" "as \<noteq> []"
    and "amap (persistentHandleFor env) as s = (Inr hs, s')"
  shows "same_view im place tls s s' \<and> starpuRunning s' \<and> map (handle_of s') as = map Some hs"
proof -
  have s': "hs = map (\<lambda>a. the (persistentHandles s' a)) as \<and> s' = fold (enter_tlwe env) as s \<and> starpuRunning s"
    using tlwe_registry.handles_for_cases [OF assms(1,4), of env] assms(5) by auto
  then have v: "same_view im place tls s s'" using assms by (simp add: enter_tlwes_view)
  have "persistentHandles s' a \<noteq> None" if "a \<in> set as" for a
    using that s' tlwe_registry.enter_all_entered by metis
  moreover have "typed tls s'" using v by (simp add: same_view_def)
  ultimately have "handle_of s' a = Some (the (persistentHandles s' a))" if "a \<in> set as" for a
    using that by (metis handle_of_typed(1) option.exhaust_sel)
  with s' v show ?thesis by (auto simp: same_view_def same_client_def)
qed

lemma variable_lookups:
  assumes "backend_inv s" "typed tls s" "fst ` set ps \<inter> tls = {}" "ps \<noteq> []"
    and "amap (\<lambda>(addr, bytes). persistentVariableHandleFor bytes addr) ps s = (Inr hs, s')"
  shows "same_view im place tls s s' \<and> starpuRunning s' \<and> map (handle_of s') (map fst ps) = map Some hs"
proof -
  have s': "hs = map (\<lambda>p. the (persistentVariableHandles s' (fst p))) ps \<and> s' = fold enter_variable ps s \<and>
      starpuRunning s"
    using variable_registry.handles_for_cases [OF assms(1,4)] assms(5) by auto
  then have v: "same_view im place tls s s'" using assms by (simp add: enter_variables_view)
  have "persistentVariableHandles s' (fst p) \<noteq> None" if "p \<in> set ps" for p
    using that s' variable_registry.enter_all_entered by metis
  moreover have "typed tls s'" using v by (simp add: same_view_def)
  ultimately have "handle_of s' (fst p) = Some (the (persistentVariableHandles s' (fst p)))"
    if "p \<in> set ps" for p
    using that by (metis handle_of_typed(2) option.exhaust_sel)
  with s' v show ?thesis by (auto simp: same_view_def same_client_def)
qed

section \<open>Gate calls refine the application of a gate\<close>

text \<open>
  The specification of a gate call: the codelet applied to the values at the
  addresses, the first of which is replaced by the result.
\<close>

definition apply_gate ::
  "(nat, 'w::len word, 'r, 'g) iy_machine \<Rightarrow> nat option \<Rightarrow> arch \<times> int \<Rightarrow> 'w word iy_codelet \<Rightarrow> nat list \<Rightarrow>
   (nat \<Rightarrow> ('w word, 'r, 'g) cell) \<Rightarrow> nat \<Rightarrow> ('w word, 'r, 'g) cell" where
  "apply_gate im key w cl as m = (case iy_run im key w cl (map m as) of
      Inr c \<Rightarrow> m(hd as := c)
    | Inl _ \<Rightarrow> m)"

text \<open>The state after a task has been submitted, and the task.\<close>

definition gate_submitted ::
  "(nat, 'w::len word, 'r, 'g) iy_machine \<Rightarrow> (nat \<Rightarrow> arch \<times> int) \<Rightarrow> nat set \<Rightarrow> 'w word iy_codelet \<Rightarrow> nat list \<Rightarrow>
   ('w word, 'r, 'g) backend \<Rightarrow> nat \<Rightarrow> ('w word, 'r, 'g) backend \<Rightarrow> bool" where
  "gate_submitted im place tls cl as s t s' \<longleftrightarrow>
     backend_inv s' \<and> typed tls s' \<and> same_client s s' \<and> starpuRunning s' \<and>
     t = length (tasks s) \<and> length (tasks s') = Suc t \<and> it_codelet (tasks s' ! t) = cl \<and>
     handle_of s' (hd as) = Some (ts_output (states s' ! t)) \<and> unfinished s' t \<and> ts_error (states s' ! t) = 0 \<and>
     mem im place s' = apply_gate im (currentEvalKey s) (place t) cl as (mem im place s)"

lemma pending_append:
  assumes "tasks_ok s" and "tasks s' = tasks s @ [T]" and "states s' = states s @ [x]" and "\<not> ts_finished x"
  shows "pending s' = pending s @ [length (tasks s)]"
proof -
  have "unfinished s' t = unfinished s t" if "t < length (tasks s)" for t
    using that assms by (auto simp: unfinished_def tasks_ok_def nth_append)
  moreover have "unfinished s' (length (tasks s))"
    using assms by (auto simp: unfinished_def tasks_ok_def nth_append)
  moreover from calculation have
    "filter (unfinished s') [0..<length (tasks s)] = filter (unfinished s) [0..<length (tasks s)]"
    by (intro filter_cong) auto
  ultimately show ?thesis by (simp add: pending_def assms(2))
qed

lemma seq_data_append:
  assumes "backend_inv s" and "tasks s' = tasks s @ [T]" and "states s' = states s @ [x]" and "\<not> ts_finished x"
    and "data s' = data s" "currentEvalKey s' = currentEvalKey s"
  shows "seq_data im place s' = run_iy_task im (currentEvalKey s) place (length (tasks s), T) (seq_data im place s)"
proof -
  have old: "map (task_at s') (pending s) = map (task_at s) (pending s)"
    using assms(2) by (auto simp: pending_def nth_append)
  have "pending s' = pending s @ [length (tasks s)]"
    using assms(1) pending_append [OF _ assms(2-4)] by (simp add: backend_inv_def)
  then have "map (task_at s') (pending s') = map (task_at s) (pending s) @ [(length (tasks s), T)]"
    using old by (simp add: assms(2))
  then show ?thesis
    unfolding seq_data_def assms(5,6) by (simp add: run_in_order_append)
qed

lemma map_lookup:
  "map f as = map Some ks \<Longrightarrow> map (\<lambda>a. case f a of Some k \<Rightarrow> g k | None \<Rightarrow> e a) as = map g ks"
  by (induction as arbitrary: ks) auto

text \<open>Running one task whose handles stand for addresses is applying its gate there.\<close>

lemma mem_insert:
  assumes inv: "backend_inv s" and hs: "map (handle_of s) as = map Some (map fst (it_handles T))"
    and wr: "it_handles T \<noteq> []" "snd (hd (it_handles T)) \<noteq> STARPU_R"
    and seq: "seq_data im place s' = run_iy_task im key place (t, T) (seq_data im place s)"
    and same: "persistentHandles s' = persistentHandles s"
      "persistentVariableHandles s' = persistentVariableHandles s" "host s' = host s"
  shows "mem im place s' = apply_gate im key (place t) (it_codelet T) as (mem im place s)"
proof -
  obtain h m ps where T: "it_handles T = (h, m) # ps" using wr(1) by (cases "it_handles T") auto
  then obtain a as' where as: "as = a # as'" and a: "handle_of s a = Some h" using hs by (cases as) auto
  have hof: "handle_of s' = handle_of s" by (rule handle_of_cong [OF same(1,2)])
  have args: "map (mem im place s) as = map (seq_data im place s \<circ> fst) (it_handles T)"
    using map_lookup [OF hs, of "host s" "seq_data im place s"] by (simp add: mem_handle_of [abs_def])
  have upd: "(case handle_of s b of Some k \<Rightarrow> ((seq_data im place s)(h := c)) k | None \<Rightarrow> host s b) =
      ((mem im place s)(a := c)) b" for b c
    using a handle_of_ok(2) [OF inv] by (auto simp: mem_handle_of split: option.split)
  show ?thesis
  proof (cases "iy_run im key (place t) (it_codelet T) (map (mem im place s) as)")
    case (Inl e)
    then have "seq_data im place s' = seq_data im place s"
      using T wr(2) unfolding args by (simp add: seq run_iy_task_def)
    from mem_cong [OF this same] show ?thesis by (simp add: apply_gate_def Inl)
  next
    case (Inr c)
    then have new: "seq_data im place s' = (seq_data im place s)(h := c)"
      using T wr(2) unfolding args by (simp add: seq run_iy_task_def)
    have "mem im place s' b = ((mem im place s)(a := c)) b" for b
      unfolding mem_handle_of [of im place s'] hof same(3) new by (rule upd)
    then have "mem im place s' = (mem im place s)(a := c)" by (rule ext)
    then show ?thesis by (simp add: apply_gate_def Inr) (simp add: as)
  qed
qed

lemma insert_task_submits:
  assumes inv: "backend_inv s" "typed tls s" and fits: "codelet_fits m n cl" and len: "length as = Suc n"
    and hs: "map (handle_of s) as = map Some hs"
    and run: "insert_task env err cl (zip hs (m # replicate n STARPU_R)) s = (Inr t, s')"
  shows "gate_submitted im place tls cl as s t s'"
proof -
  let ?T = "\<lparr>it_codelet = cl, it_handles = zip hs (m # replicate n STARPU_R)\<rparr>"
  have lenh: "length hs = Suc n" using hs len by (metis length_map)
  then obtain h hs' where h: "hs = h # hs'" by (cases hs) auto
  have up: "starpuRunning s" and t: "t = length (tasks s)"
    and s': "s' = s\<lparr>attempts := Suc (attempts s), tasks := tasks s @ [?T],
      states := states s @ [\<lparr>ts_finished = False, ts_error = 0, ts_output = h\<rparr>],
      callback_boxes := callback_boxes s @ [length (tasks s)]\<rparr>"
    using run h by (auto simp: insert_task_def Let_def split: if_split_asm)
  have valid: "valid_handles (Suc n) hs s"
    using lenh hs handle_of_ok(1) [OF inv(1)] unfolding valid_handles_def
    by (metis (no_types, lifting) image_eqI image_iff list.set_map)
  then have inv': "backend_inv s'"
    using act_spec_Inr [OF insert_task_spec [OF fits] _ run] inv(1) up by blast
  have hof: "handle_of s' = handle_of s" by (rule handle_of_cong) (simp_all add: s')
  have fsts: "map fst (it_handles ?T) = hs" using lenh by simp
  have keys: "map (handle_of s) as = map Some (map fst (it_handles ?T))" unfolding fsts by (rule hs)
  have seq: "seq_data im place s' =
      run_iy_task im (currentEvalKey s) place (length (tasks s), ?T) (seq_data im place s)"
    by (rule seq_data_append [OF inv(1)]) (simp add: s')+
  have "mem im place s' = apply_gate im (currentEvalKey s) (place t) cl as (mem im place s)"
    using mem_insert [OF inv(1) keys _ _ seq] lenh fits h t by (simp add: s' codelet_fits_def)
  moreover have "ts_output (states s' ! t) = h" "unfinished s' t" "it_codelet (tasks s' ! t) = cl"
    "ts_error (states s' ! t) = 0"
    using inv(1) t by (auto simp: s' backend_inv_def tasks_ok_def nth_append unfinished_def)
  moreover have "handle_of s' (hd as) = Some h" using hs h hof by (cases as) auto
  ultimately show ?thesis
    using inv' inv(2) up t by (simp add: gate_submitted_def same_client_def typed_def) (simp add: s')
qed

lemma gate_submitted_view:
  "same_view im place tls s s1 \<Longrightarrow> gate_submitted im place tls cl as s1 t s' \<Longrightarrow>
   gate_submitted im place tls cl as s t s'"
  by (auto simp: gate_submitted_def same_view_def same_client_def)

lemma submitAsync_submits:
  assumes inv: "backend_inv s" "typed tls s" and fits: "codelet_fits STARPU_W n cl" and len: "length as = Suc n"
    and as: "set as \<subseteq> tls" and run: "submitAsync env cl as s = (Inr t, s')"
  shows "gate_submitted im place tls cl as s t s'"
proof -
  from run obtain hs s1 where look: "amap (persistentHandleFor env) as s = (Inr hs, s1)"
    and ins: "insert_task env SubmitFailed cl (zip hs (STARPU_W # replicate (length hs - 1) STARPU_R)) s1 = (Inr t, s')"
    by (auto simp: submitAsync_def abind_def split: prod.splits sum.splits)
  have "as \<noteq> []" using len by auto
  from tlwe_lookups [OF inv as this look, of im place]
  have v: "same_view im place tls s s1" and hs: "map (handle_of s1) as = map Some hs" by simp_all
  have "length hs - 1 = n" using hs len by (metis diff_Suc_1 length_map)
  then have "gate_submitted im place tls cl as s1 t s'"
    using insert_task_submits [OF _ _ fits len hs] ins v by (simp add: same_view_def)
  with v show ?thesis by (rule gate_submitted_view)
qed

lemma submitVariableAsync_submits:
  assumes inv: "backend_inv s" "typed tls s" and fits: "codelet_fits m n cl" and len: "length ps = Suc n"
    and ps: "fst ` set ps \<inter> tls = {}"
    and run: "submitVariableAsync env cl ps (m # replicate n STARPU_R) s = (Inr t, s')"
  shows "gate_submitted im place tls cl (map fst ps) s t s'"
proof -
  from run obtain hs s1 where look: "amap (\<lambda>(addr, bytes). persistentVariableHandleFor bytes addr) ps s = (Inr hs, s1)"
    and ins: "insert_task env RamSubmitFailed cl (zip hs (m # replicate n STARPU_R)) s1 = (Inr t, s')"
    by (auto simp: submitVariableAsync_def abind_def split: prod.splits sum.splits)
  have "ps \<noteq> []" using len by auto
  from variable_lookups [OF inv ps this look, of im place]
  have v: "same_view im place tls s s1" and hs: "map (handle_of s1) (map fst ps) = map Some hs" by simp_all
  have "gate_submitted im place tls cl (map fst ps) s1 t s'"
    using insert_task_submits [OF _ _ fits _ hs ins] v len by (simp add: same_view_def)
  with v show ?thesis by (rule gate_submitted_view)
qed

lemma submitMuxWoSEAsync_submits:
  assumes inv: "backend_inv s" "typed tls s" and as: "out \<notin> tls" "{sel, t1, f1} \<subseteq> tls"
    and run: "submitMuxWoSEAsync env out sel t1 f1 s = (Inr t, s')"
  shows "gate_submitted im place tls muxWoSEStarpuCodelet [out, sel, t1, f1] s t s'"
proof -
  from run obtain h s0 hs s1 where
    out: "persistentVariableHandleFor (se_trlwe_bytes env) out s = (Inr h, s0)"
    and look: "amap (persistentHandleFor env) [sel, t1, f1] s0 = (Inr hs, s1)"
    and ins: "insert_task env RamMuxSubmitFailed muxWoSEStarpuCodelet
      ((h, STARPU_W) # map (\<lambda>h. (h, STARPU_R)) hs) s1 = (Inr t, s')"
    by (auto simp: submitMuxWoSEAsync_def abind_def [of "persistentVariableHandleFor _ _"]
        abind_def [of "amap _ _"] split: prod.splits sum.splits simp del: amap.simps)
  have "amap (\<lambda>(addr, bytes). persistentVariableHandleFor bytes addr) [(out, se_trlwe_bytes env)] s = (Inr [h], s0)"
    using out by (simp add: abind_def act_simps)
  from variable_lookups [OF inv _ _ this, of im place] as(1)
  have v0: "same_view im place tls s s0" and h: "handle_of s0 out = Some h" by auto
  with tlwe_lookups [OF _ _ _ _ look, of tls im place] as(2)
  have v1: "same_view im place tls s0 s1" and hs: "map (handle_of s1) [sel, t1, f1] = map Some hs"
    by (auto simp: same_view_def)
  have all: "map (handle_of s1) [out, sel, t1, f1] = map Some (h # hs)"
    using hs h v1 by (simp add: same_view_def)
  have "length hs = 3" using hs by (metis length_map list.size(3,4) One_nat_def Suc_eq_plus1 numeral_3_eq_3)
  then have "(h, STARPU_W) # map (\<lambda>h. (h, STARPU_R)) hs = zip (h # hs) (STARPU_W # replicate 3 STARPU_R)"
    by (simp add: zip_replicate2)
  with ins insert_task_submits [OF _ _ muxWoSE_fits _ all] v1
  have "gate_submitted im place tls muxWoSEStarpuCodelet [out, sel, t1, f1] s1 t s'"
    by (simp add: same_view_def)
  with v0 v1 show ?thesis by (meson gate_submitted_view)
qed

text \<open>The gate of a call: its codelet and its addresses, the output first.\<close>

definition gate_of :: "'w::len word iy_env \<Rightarrow> api_call \<Rightarrow> ('w word iy_codelet \<times> nat list) option" where
  "gate_of env c = (case c of
      BinaryGate g out l r k \<Rightarrow> Some (codeletFor (se_cufhepp env) (se_mu env) g, [out, l, r])
    | NotGate out i \<Rightarrow> Some (notStarpuCodelet, [out, i])
    | MuxGate out sel t f k \<Rightarrow> Some (muxStarpuCodelet (se_cufhepp env), [out, sel, t, f])
    | CmuxGate out sel t f \<Rightarrow>
        if out = t then Some (cmuxFFTInPlaceTrueStarpuCodelet (se_cufhepp env) (se_cuda_cmux env), [out, sel, f])
        else if out = f then Some (cmuxFFTInPlaceFalseStarpuCodelet (se_cufhepp env) (se_cuda_cmux env), [out, sel, t])
        else Some (cmuxFFTStarpuCodelet (se_cufhepp env) (se_cuda_cmux env), [out, sel, t, f])
    | MuxWoSEGate out sel t f k \<Rightarrow> Some (muxWoSEStarpuCodelet, [out, sel, t, f])
    | _ \<Rightarrow> None)"

definition call_key :: "api_call \<Rightarrow> nat option" where
  "call_key c = (case c of
      BinaryGate g out l r k \<Rightarrow> Some k | MuxGate out sel t f k \<Rightarrow> Some k
    | MuxWoSEGate out sel t f k \<Rightarrow> Some k | _ \<Rightarrow> None)"

text \<open>The addresses of a call have the types that the C++ signature gives them.\<close>

definition typed_call :: "nat set \<Rightarrow> api_call \<Rightarrow> bool" where
  "typed_call tls c = (case c of
      BinaryGate g out l r k \<Rightarrow> {out, l, r} \<subseteq> tls
    | NotGate out i \<Rightarrow> {out, i} \<subseteq> tls
    | MuxGate out sel t f k \<Rightarrow> {out, sel, t, f} \<subseteq> tls
    | CmuxGate out sel t f \<Rightarrow> {out, sel, t, f} \<inter> tls = {}
    | MuxWoSEGate out sel t f k \<Rightarrow> out \<notin> tls \<and> {sel, t, f} \<subseteq> tls
    | _ \<Rightarrow> True)"

text \<open>What starting the runtime and loading the key leave alone.\<close>

definition prepared ::
  "(nat, 'w::len word, 'r, 'g) iy_machine \<Rightarrow> (nat \<Rightarrow> arch \<times> int) \<Rightarrow> nat set \<Rightarrow> nat option \<Rightarrow>
   ('w word, 'r, 'g) backend \<Rightarrow> ('w word, 'r, 'g) backend \<Rightarrow> bool" where
  "prepared im place tls key s s' \<longleftrightarrow>
     backend_inv s' \<and> typed tls s' \<and> mem im place s' = mem im place s \<and> tasks s' = tasks s \<and> host s' = host s \<and>
     states s' = states s \<and> captureActive s' = captureActive s \<and> capturedTask s' = capturedTask s \<and>
     blocked_in s' = blocked_in s \<and> currentEvalKey s' = (if key = None then currentEvalKey s else key)"

lemma init_starpu_fields [simp]:
  "tasks (init_starpu env s) = tasks s" "states (init_starpu env s) = states s" "data (init_starpu env s) = data s"
  "host (init_starpu env s) = host s" "currentEvalKey (init_starpu env s) = currentEvalKey s"
  "persistentHandles (init_starpu env s) = persistentHandles s"
  "persistentVariableHandles (init_starpu env s) = persistentVariableHandles s"
  "captureActive (init_starpu env s) = captureActive s" "capturedTask (init_starpu env s) = capturedTask s"
  "blocked_in (init_starpu env s) = blocked_in s"
  by (simp_all add: init_starpu_def Let_def)

lemma initializeIyokanCufhepp_fields [simp]:
  "tasks (initializeIyokanCufhepp env s) = tasks s" "states (initializeIyokanCufhepp env s) = states s"
  "data (initializeIyokanCufhepp env s) = data s" "host (initializeIyokanCufhepp env s) = host s"
  "currentEvalKey (initializeIyokanCufhepp env s) = currentEvalKey s"
  "persistentHandles (initializeIyokanCufhepp env s) = persistentHandles s"
  "persistentVariableHandles (initializeIyokanCufhepp env s) = persistentVariableHandles s"
  "captureActive (initializeIyokanCufhepp env s) = captureActive s"
  "capturedTask (initializeIyokanCufhepp env s) = capturedTask s"
  "blocked_in (initializeIyokanCufhepp env s) = blocked_in s"
  by (simp_all add: initializeIyokanCufhepp_def)

lemma ensureStarpuRuntime_prepares:
  assumes "backend_inv s" "typed tls s" and run: "ensureStarpuRuntime env s = (Inr x, s')"
  shows "prepared im place tls None s s'"
proof -
  have s': "s' = (if starpuInitOnce s then s else init_starpu env s)"
    using run by (auto simp: ensureStarpuRuntime_def Let_def split: if_split_asm)
  have "mem im place (init_starpu env s) = mem im place s"
    by (intro mem_cong seq_data_cong) simp_all
  moreover have "backend_inv s'" using act_spec_Inr [OF ensureStarpuRuntime_spec assms(1) run] by simp
  ultimately show ?thesis using assms(2) by (simp add: prepared_def s' typed_def)
qed

lemma same_key_update: "currentEvalKey s = k \<Longrightarrow> s\<lparr>currentEvalKey := k\<rparr> = s"
  by (cases s) simp

lemma ensureStarpu_prepares:
  assumes inv: "backend_inv s" "typed tls s" and run: "ensureStarpu env k s = (Inr x, s')"
    and ready: "currentEvalKey s = Some k \<or> pending s = []"
  shows "prepared im place tls (Some k) s s'"
proof -
  from run obtain y s1 where rt: "ensureStarpuRuntime env s = (Inr y, s1)"
    by (auto simp: ensureStarpu_def abind_def split: prod.splits sum.splits)
  have p: "prepared im place tls None s s1" by (rule ensureStarpuRuntime_prepares [OF inv rt])
  have eqs: "s' = (if se_cufhepp env then initializeIyokanCufhepp env (s1\<lparr>currentEvalKey := Some k\<rparr>)
      else s1\<lparr>currentEvalKey := Some k\<rparr>)"
    using run
    by (auto simp: ensureStarpu_def abind_def rt Let_def same_key_update split: option.split_asm if_split_asm)
  have fields: "tasks s' = tasks s1" "states s' = states s1" "data s' = data s1" "currentEvalKey s' = Some k"
    by (simp_all add: eqs)
  have "seq_data im place s' = seq_data im place s1" using ready
  proof
    assume "currentEvalKey s = Some k"
    then show ?thesis using p fields by (intro seq_data_cong) (simp_all add: prepared_def)
  next
    assume "pending s = []"
    moreover have "pending s1 = pending s" using p by (intro pending_cong) (simp_all add: prepared_def)
    moreover have "pending s' = pending s1" using fields by (intro pending_cong) simp_all
    ultimately show ?thesis by (simp add: seq_data_def fields)
  qed
  then have "mem im place s' = mem im place s1" by (rule mem_cong) (simp_all add: eqs)
  moreover have "backend_inv s'" using act_spec_Inr [OF ensureStarpu_spec inv(1) run] .
  ultimately show ?thesis using p by (simp add: prepared_def eqs typed_def)
qed

text \<open>The state after a gate call has returned to the client or blocked it.\<close>

definition gate_called ::
  "(nat, 'w::len word, 'r, 'g) iy_machine \<Rightarrow> (nat \<Rightarrow> arch \<times> int) \<Rightarrow> nat set \<Rightarrow> nat option \<Rightarrow>
   'w word iy_codelet \<Rightarrow> nat list \<Rightarrow> ('w word, 'r, 'g) backend \<Rightarrow> ('w word, 'r, 'g) backend \<Rightarrow> bool" where
  "gate_called im place tls key cl as s s' \<longleftrightarrow> (let t = length (tasks s) in
     backend_inv s' \<and> typed tls s' \<and> starpuRunning s' \<and> host s' = host s \<and> length (tasks s') = Suc t \<and>
     it_codelet (tasks s' ! t) = cl \<and> handle_of s' (hd as) = Some (ts_output (states s' ! t)) \<and>
     ts_error (states s' ! t) = 0 \<and> captureActive s' = captureActive s \<and>
     currentEvalKey s' = (if key = None then currentEvalKey s else key) \<and>
     (if captureActive s then capturedTask s' = Some t \<and> blocked_in s' = blocked_in s
      else blocked_in s' = Some (WaitForTask t)) \<and>
     mem im place s' = apply_gate im (currentEvalKey s') (place t) cl as (mem im place s))"

lemma deliver_called:
  assumes p: "prepared im place tls key s s0" and sub: "gate_submitted im place tls cl as s0 t s1"
    and run: "deliver t s1 = (Inr x, s')"
  shows "gate_called im place tls key cl as s s'"
proof -
  have s': "s' = (if captureActive s1 then s1\<lparr>capturedTask := Some t\<rparr> else s1\<lparr>blocked_in := Some (WaitForTask t)\<rparr>)"
    using run by (auto simp: deliver_def captureTask_def split: if_split_asm)
  have seq: "seq_data im place s' = seq_data im place s1" by (rule seq_data_cong) (simp_all add: s')
  then have "mem im place s' = mem im place s1" by (rule mem_cong) (simp_all add: s')
  moreover have "backend_inv s'"
    using act_spec_Inr [OF deliver_spec _ run] sub by (simp add: gate_submitted_def)
  moreover have "handle_of s' = handle_of s1" by (rule handle_of_cong) (simp_all add: s')
  moreover have "typed tls s'" using sub by (simp add: gate_submitted_def typed_def s')
  moreover have "states s' = states s1" "tasks s' = tasks s1" "currentEvalKey s' = currentEvalKey s0"
    using sub by (simp_all add: s' gate_submitted_def same_client_def)
  moreover have "host s' = host s1" "starpuRunning s' = starpuRunning s1" "captureActive s' = captureActive s1"
    "if captureActive s1 then capturedTask s' = Some t \<and> blocked_in s' = blocked_in s1
     else blocked_in s' = Some (WaitForTask t)"
    by (simp_all add: s')
  ultimately show ?thesis
    using sub p unfolding gate_called_def gate_submitted_def prepared_def same_client_def Let_def by auto
qed

lemma abind_InrE:
  assumes "abind m f s = (Inr y, s'')"
  obtains x s' where "m s = (Inr x, s')" and "f x s' = (Inr y, s'')"
  using assms by (auto simp: abind_def split: prod.splits sum.splits)

lemma cmux_call_called:
  assumes inv: "backend_inv s" "typed tls s" and as: "{out, sel, t, f} \<inter> tls = {}"
    and run: "runIyokanStarpuCMUXFFT env out sel t f s = (Inr x, s')"
    and g: "gate_of env (CmuxGate out sel t f) = Some (cl, as)"
  shows "gate_called im place tls None cl as s s'"
proof -
  let ?cuf = "se_cufhepp env" and ?var = "se_cuda_cmux env" and ?r = "se_trlwe_bytes env" and ?g = "se_trgsw_bytes env"
  define ps where "ps = (if out = t then [(out, ?r), (sel, ?g), (f, ?r)] else if out = f
    then [(out, ?r), (sel, ?g), (t, ?r)] else [(out, ?r), (sel, ?g), (t, ?r), (f, ?r)])"
  define n where "n = (if out = t \<or> out = f then 2 else 3 :: nat)"
  define m where "m = (if out = t \<or> out = f then STARPU_RW else STARPU_W)"
  have fits: "codelet_fits m n cl" "as = map fst ps" "length ps = Suc n" "fst ` set ps \<inter> tls = {}"
    using g as codelets_fit by (auto simp: gate_of_def ps_def n_def m_def split: if_splits)
  have mode: "m # replicate n STARPU_R =
      (if out = t \<or> out = f then [STARPU_RW, STARPU_R, STARPU_R] else [STARPU_W, STARPU_R, STARPU_R, STARPU_R])"
    by (simp add: m_def n_def numeral_2_eq_2 numeral_3_eq_3)
  from run obtain u s0 k s1 where rt: "ensureStarpuRuntime env s = (Inr u, s0)"
    and sub: "submitVariableAsync env cl ps (m # replicate n STARPU_R) s0 = (Inr k, s1)"
    and del: "deliver k s1 = (Inr x, s')"
    unfolding runIyokanStarpuCMUXFFT_def Let_def mode
    using g by (elim abind_InrE) (auto simp: gate_of_def ps_def split: if_split_asm)
  have p: "prepared im place tls None s s0" by (rule ensureStarpuRuntime_prepares [OF inv rt])
  then have "gate_submitted im place tls cl as s0 k s1"
    using submitVariableAsync_submits [OF _ _ fits(1,3,4) sub] fits(2) by (simp add: prepared_def)
  with p show ?thesis using del by (rule deliver_called)
qed

lemma tlwe_call_called:
  assumes inv: "backend_inv s" "typed tls s" and as: "set as \<subseteq> tls" "length as = Suc n"
    and fits: "codelet_fits STARPU_W n cl" and p: "prepared im place tls key s s0"
    and run: "abind (submitAsync env cl as) deliver s0 = (Inr x, s')"
  shows "gate_called im place tls key cl as s s'"
proof -
  from run obtain k s1 where sub: "submitAsync env cl as s0 = (Inr k, s1)" and del: "deliver k s1 = (Inr x, s')"
    by (rule abind_InrE)
  have "gate_submitted im place tls cl as s0 k s1"
    using submitAsync_submits [OF _ _ fits as(2,1) sub] p by (simp add: prepared_def)
  with p show ?thesis using del by (rule deliver_called)
qed

lemma gate_call_called:
  assumes inv: "backend_inv s" "typed tls s" and g: "gate_of env c = Some (cl, as)" and ty: "typed_call tls c"
    and ready: "\<forall>k. call_key c = Some k \<longrightarrow> currentEvalKey s = Some k \<or> pending s = []"
    and run: "iy_call env c s = (Inr x, s')"
  shows "gate_called im place tls (call_key c) cl as s s'"
proof (cases c)
  case (BinaryGate gt out l r k)
  with run obtain u s0 y where en: "ensureStarpu env k s = (Inr u, s0)"
    and sub: "abind (submitAsync env (codeletFor (se_cufhepp env) (se_mu env) gt) [out, l, r]) deliver s0 = (Inr y, s')"
    by (auto simp: iy_call_def runIyokanStarpuBinaryGate_def act_simps elim!: abind_InrE [of _ "\<lambda>_. areturn None"]
        abind_InrE [of "ensureStarpu _ _"])
  have p: "prepared im place tls (Some k) s s0"
    using ensureStarpu_prepares [OF inv en] ready BinaryGate by (simp add: call_key_def)
  show ?thesis
    using tlwe_call_called [OF inv _ _ codelets_fit(1) p sub] g ty BinaryGate by (simp add: gate_of_def typed_call_def call_key_def)
next
  case (NotGate out i)
  with run obtain u s0 y where en: "ensureStarpuRuntime env s = (Inr u, s0)"
    and sub: "abind (submitAsync env notStarpuCodelet [out, i]) deliver s0 = (Inr y, s')"
    by (auto simp: iy_call_def runIyokanStarpuNot_def act_simps elim!: abind_InrE [of _ "\<lambda>_. areturn None"]
        abind_InrE [of "ensureStarpuRuntime _"])
  show ?thesis
    using tlwe_call_called [OF inv _ _ codelets_fit(2) ensureStarpuRuntime_prepares [OF inv en] sub] g ty NotGate
    by (simp add: gate_of_def typed_call_def call_key_def)
next
  case (MuxGate out sel t f k)
  with run obtain u s0 y where en: "ensureStarpu env k s = (Inr u, s0)"
    and sub: "abind (submitAsync env (muxStarpuCodelet (se_cufhepp env)) [out, sel, t, f]) deliver s0 = (Inr y, s')"
    by (auto simp: iy_call_def runIyokanStarpuMux_def act_simps elim!: abind_InrE [of _ "\<lambda>_. areturn None"]
        abind_InrE [of "ensureStarpu _ _"])
  have p: "prepared im place tls (Some k) s s0"
    using ensureStarpu_prepares [OF inv en] ready MuxGate by (simp add: call_key_def)
  show ?thesis
    using tlwe_call_called [OF inv _ _ codelets_fit(3) p sub] g ty MuxGate by (simp add: gate_of_def typed_call_def call_key_def)
next
  case (CmuxGate out sel t f)
  with run have "runIyokanStarpuCMUXFFT env out sel t f s = (Inr (), s')"
    by (auto simp: iy_call_def act_simps elim!: abind_InrE [of _ "\<lambda>_. areturn None"])
  then show ?thesis
    using cmux_call_called [OF inv] g ty CmuxGate by (simp add: typed_call_def call_key_def)
next
  case (MuxWoSEGate out sel t f k)
  with run obtain u s0 y where en: "ensureStarpu env k s = (Inr u, s0)"
    and rest: "abind (submitMuxWoSEAsync env out sel t f) deliver s0 = (Inr y, s')"
    by (auto simp: iy_call_def runIyokanStarpuMuxWoSE_def act_simps elim!: abind_InrE [of _ "\<lambda>_. areturn None"]
        abind_InrE [of "ensureStarpu _ _"])
  from rest obtain n s1 where sub: "submitMuxWoSEAsync env out sel t f s0 = (Inr n, s1)"
    and del: "deliver n s1 = (Inr y, s')" by (rule abind_InrE)
  have p: "prepared im place tls (Some k) s s0"
    using ensureStarpu_prepares [OF inv en] ready MuxWoSEGate by (simp add: call_key_def)
  then have "gate_submitted im place tls muxWoSEStarpuCodelet [out, sel, t, f] s0 n s1"
    using submitMuxWoSEAsync_submits [OF _ _ _ _ sub] ty MuxWoSEGate by (simp add: prepared_def typed_call_def)
  with p have "gate_called im place tls (Some k) muxWoSEStarpuCodelet [out, sel, t, f] s s'"
    using del by (rule deliver_called)
  then show ?thesis using g MuxWoSEGate by (simp add: gate_of_def call_key_def)
qed (use g in \<open>simp_all add: gate_of_def\<close>)

section \<open>Completion and waking up\<close>

lemma mem_complete:
  assumes "backend_inv s" and "can_complete s t"
  shows "mem im place (complete_task im place t s) = mem im place s"
  using assms by (intro mem_cong seq_data_complete) simp_all

definition completes ::
  "(nat, 'w::len word, 'r, 'g) iy_machine \<Rightarrow> (nat \<Rightarrow> arch \<times> int) \<Rightarrow>
   ('w word, 'r, 'g) backend \<Rightarrow> ('w word, 'r, 'g) backend \<Rightarrow> bool" where
  "completes im place s s' \<longleftrightarrow> (\<exists>t. can_complete s t \<and> s' = complete_task im place t s)"

text \<open>What no completion of tasks changes.\<close>

definition same_outside ::
  "(nat, 'w::len word, 'r, 'g) iy_machine \<Rightarrow> (nat \<Rightarrow> arch \<times> int) \<Rightarrow>
   ('w word, 'r, 'g) backend \<Rightarrow> ('w word, 'r, 'g) backend \<Rightarrow> bool" where
  "same_outside im place s s' \<longleftrightarrow>
     mem im place s' = mem im place s \<and> host s' = host s \<and> blocked_in s' = blocked_in s \<and> tasks s' = tasks s \<and>
     handle_table s' = handle_table s \<and> persistentHandles s' = persistentHandles s \<and>
     persistentVariableHandles s' = persistentVariableHandles s \<and> starpuRunning s' = starpuRunning s \<and>
     captureActive s' = captureActive s \<and> capturedTask s' = capturedTask s \<and>
     currentEvalKey s' = currentEvalKey s \<and> length (states s') = length (states s) \<and>
     (\<forall>t. ts_output (states s' ! t) = ts_output (states s ! t) \<and> ts_error (states s' ! t) = ts_error (states s ! t))"

lemma same_outside_refl: "same_outside im place s s"
  and same_outside_trans:
    "same_outside im place s s' \<Longrightarrow> same_outside im place s' s'' \<Longrightarrow> same_outside im place s s''"
  by (simp_all add: same_outside_def)

lemma completes_outside:
  assumes "completes im place s s'" and "backend_inv s"
  shows "backend_inv s' \<and> same_outside im place s s'"
proof -
  from assms obtain t where t: "can_complete s t" and s': "s' = complete_task im place t s"
    by (auto simp: completes_def)
  have "states s' = (states s)[t := (states s ! t)\<lparr>ts_finished := True\<rparr>]"
    by (simp add: s' complete_task_def taskCompleted_def)
  then show ?thesis
    using complete_task_inv [OF assms(2) t, of im place] mem_complete [OF assms(2) t, of im place]
    by (simp add: same_outside_def s' proj_nth_list_update)
qed

lemma completions_outside:
  assumes "(completes im place)\<^sup>*\<^sup>* s s'" and "backend_inv s"
  shows "backend_inv s' \<and> same_outside im place s s'"
  using assms
  by (induction rule: rtranclp_induct)
    (auto simp: same_outside_refl dest: completes_outside intro: same_outside_trans)

text \<open>A completion uses up one callback box, and the oldest pending task can always complete.\<close>

lemma completes_fewer:
  assumes "completes im place s s'" and "backend_inv s"
  shows "length (callback_boxes s') < length (callback_boxes s)"
proof -
  from assms obtain t where t: "can_complete s t" and s': "s' = complete_task im place t s"
    by (auto simp: completes_def)
  have "t \<in> set (callback_boxes s)"
    using t assms(2) pending_unfinished [of t s] pending_boxes [of s] by (simp add: can_complete_def)
  with length_pos_if_in_set [OF this] show ?thesis
    by (simp add: s' complete_task_def taskCompleted_def length_remove1)
qed

lemma pending_can_complete:
  assumes "unfinished s t"
  shows "\<exists>u. can_complete s u"
proof -
  define u where "u = (LEAST u. unfinished s u)"
  have "unfinished s u" unfolding u_def using assms by (rule LeastI)
  moreover have "\<not> unfinished s v" if "v < u" for v using that not_less_Least unfolding u_def by blast
  ultimately show ?thesis by (auto simp: can_complete_def)
qed

lemma completions_finish:
  assumes "backend_inv s"
  shows "\<exists>s'. (completes im place)\<^sup>*\<^sup>* s s' \<and> (\<forall>t. \<not> unfinished s' t)"
  using assms
proof (induction "length (callback_boxes s)" arbitrary: s rule: less_induct)
  case less
  show ?case
  proof (cases "\<exists>t. unfinished s t")
    case True
    then obtain s1 where s1: "completes im place s s1"
      using pending_can_complete unfolding completes_def by blast
    then have "length (callback_boxes s1) < length (callback_boxes s)" "backend_inv s1"
      using less.prems completes_fewer completes_outside by blast+
    from less.hyps [OF this] obtain s' where "(completes im place)\<^sup>*\<^sup>* s1 s'" "\<forall>t. \<not> unfinished s' t" by blast
    with s1 show ?thesis by (meson converse_rtranclp_into_rtranclp)
  qed auto
qed

text \<open>The address whose object a live handle stands for.\<close>

lemma live_handle:
  assumes "backend_inv s" "typed tls s" "h < length (handle_table s)" "hi_live (handle_table s ! h)"
  shows "handle_of s (hi_addr (handle_table s ! h)) = Some h"
proof -
  have "persistentHandles s (hi_addr (handle_table s ! h)) = Some h \<or>
      persistentVariableHandles s (hi_addr (handle_table s ! h)) = Some h"
    using assms(1,3,4) unfolding backend_inv_def registry_ok_def by blast
  then show ?thesis using handle_of_typed [OF assms(2)] by blast
qed

text \<open>Bringing an output to the host changes the host contents there, to the value that is represented.\<close>

lemma acquire_read_mem:
  assumes inv: "backend_inv s" "typed tls s" and t: "t < length (tasks s)"
    and rd: "readable s (ts_output (states s ! t))" and run: "acquire_read env t s = (Inr x, s')"
    and a: "a = hi_addr (handle_table s ! ts_output (states s ! t))"
  shows "mem im place s' = mem im place s \<and> host s' = (host s)(a := mem im place s a) \<and>
    handle_of s a = Some (ts_output (states s ! t))"
proof -
  let ?h = "ts_output (states s ! t)"
  have s': "s' = s\<lparr>host := (host s)(a := data s ?h)\<rparr>" and live: "hi_live (handle_table s ! ?h)"
    using run a by (auto simp: acquire_read_def Let_def split: if_split_asm)
  have "?h < length (handle_table s)"
    using inv(1) t by (auto simp: backend_inv_def tasks_ok_def task_wf_def)
  from live_handle [OF inv this live] have h: "handle_of s a = Some ?h" unfolding a .
  have val: "mem im place s a = data s ?h"
    using seq_data_readable [OF rd] by (simp add: mem_handle_of h)
  have seq: "seq_data im place s' = seq_data im place s" by (rule seq_data_cong) (simp_all add: s')
  have hof: "handle_of s' = handle_of s" by (rule handle_of_cong) (simp_all add: s')
  have hst: "host s' = (host s)(a := data s ?h)" by (simp add: s')
  have "mem im place s' b = mem im place s b" for b
    using h by (auto simp: mem_handle_of seq hof hst split: option.split)
  then show ?thesis using h val hst by (simp add: fun_eq_iff)
qed

text \<open>Marking a host write makes the host contents the value that is represented.\<close>

lemma acquire_write_mem:
  assumes inv: "backend_inv s" and h: "handle_of s a = Some h" and wr: "writable s h"
    and run: "acquire_write env err h s = (Inr x, s')"
  shows "mem im place s' = (mem im place s)(a := host s a)"
proof -
  have addr: "hi_addr (handle_table s ! h) = a" by (rule handle_of_ok(2) [OF inv h])
  then have s': "s' = s\<lparr>data := (data s)(h := host s a)\<rparr>"
    using run by (auto simp: acquire_write_def split: if_split_asm)
  have seq: "seq_data im place s' = (seq_data im place s)(h := host s a)"
    unfolding s' by (rule seq_data_upd) (use wr in \<open>auto simp: writable_def\<close>)
  have hof: "handle_of s' = handle_of s" by (rule handle_of_cong) (simp_all add: s')
  have inj: "b = a" if "handle_of s b = Some h" for b using handle_of_ok(2) [OF inv that] addr by simp
  have hst: "host s' = host s" by (simp add: s')
  have "mem im place s' b = ((mem im place s)(a := host s a)) b" for b
  proof (cases "b = a")
    case False
    then show ?thesis using inj by (auto simp: mem_handle_of seq hof hst split: option.split)
  qed (simp add: mem_handle_of seq hof h)
  then show ?thesis by (rule ext)
qed

lemma unblock_same:
  "mem im place (s\<lparr>blocked_in := b\<rparr>) = mem im place s" "typed tls (s\<lparr>blocked_in := b\<rparr>) = typed tls s"
  "readable (s\<lparr>blocked_in := b\<rparr>) h = readable s h" "writable (s\<lparr>blocked_in := b\<rparr>) h = writable s h"
  "handle_of (s\<lparr>blocked_in := b\<rparr>) = handle_of s"
  by (auto simp: typed_def readable_def writable_def unfinished_def
      intro!: mem_cong seq_data_cong handle_of_cong)

end
