(* ===== verification/Iyokan_Threads.thy ===== *)
theory Iyokan_Threads
  imports Iyokan_Client
begin

text \<open>
  The KVSP runtime (src/src/iyokan-starpu-codelets.cpp) called by several client
  threads at once. A call is cut into the steps between which another thread can
  run: the std::call_once, each critical section of backendMutex and of
  persistentHandlesMutex, each call of StarPU, and the thread-local capture. The
  threads share the backend; the capture and the call it is blocked in
  belong to each thread. Configuration and shutdown are left to the
  single-threaded model: here the runtime is prepared and stays up.
\<close>

section \<open>The steps of a call\<close>

datatype 'a micro = RuntimeOp | KeyOp nat | TlweOp nat | VariableOp nat nat
  | InsertOp iyokan_error "'a iy_codelet" "access_mode list" | DeliverOp | PlainOp api_call

text \<open>What a call has found so far: the handles, the submitted task, and its result.\<close>

record call_locals =
  lc_handles :: "nat list"
  lc_task :: "nat option"
  lc_result :: "nat option"

definition no_locals :: call_locals where
  "no_locals = \<lparr>lc_handles = [], lc_task = None, lc_result = None\<rparr>"

text \<open>The critical section of ensureStarpu.\<close>

definition bind_key :: "'a iy_env \<Rightarrow> nat \<Rightarrow> ('a, 'r, 'g, unit) iy_act" where
  "bind_key env evalKey s = (case currentEvalKey s of
      None \<Rightarrow> (let s1 = s\<lparr>currentEvalKey := Some evalKey\<rparr>
              in (Inr (), if se_cufhepp env then initializeIyokanCufhepp env s1 else s1))
    | Some k \<Rightarrow>
        if k \<noteq> evalKey then (Inl TwoKeys, s)
        else (Inr (), if se_cufhepp env then initializeIyokanCufhepp env s else s))"

lemma ensureStarpu_steps: "ensureStarpu env k = abind (ensureStarpuRuntime env) (\<lambda>_. bind_key env k)"
  by (simp add: ensureStarpu_def bind_key_def [abs_def])

primrec exec_micro ::
  "'w::len word iy_env \<Rightarrow> 'w word micro \<Rightarrow> call_locals \<Rightarrow> ('w word, 'r, 'g, call_locals) iy_act" where
  "exec_micro env RuntimeOp l = abind (ensureStarpuRuntime env) (\<lambda>_. areturn l)"
| "exec_micro env (KeyOp k) l = abind (bind_key env k) (\<lambda>_. areturn l)"
| "exec_micro env (TlweOp a) l =
     abind (persistentHandleFor env a) (\<lambda>h. areturn (l\<lparr>lc_handles := lc_handles l @ [h]\<rparr>))"
| "exec_micro env (VariableOp a bytes) l =
     abind (persistentVariableHandleFor bytes a) (\<lambda>h. areturn (l\<lparr>lc_handles := lc_handles l @ [h]\<rparr>))"
| "exec_micro env (InsertOp err cl ms) l =
     abind (insert_task env err cl (zip (lc_handles l) ms)) (\<lambda>t. areturn (l\<lparr>lc_task := Some t\<rparr>))"
| "exec_micro env DeliverOp l = (case lc_task l of
      None \<Rightarrow> areturn l
    | Some t \<Rightarrow> abind (deliver t) (\<lambda>_. areturn l))"
| "exec_micro env (PlainOp c) l = abind (iy_call env c) (\<lambda>r. areturn (l\<lparr>lc_result := r\<rparr>))"

definition submit_code ::
  "'a micro list \<Rightarrow> iyokan_error \<Rightarrow> 'a iy_codelet \<Rightarrow> access_mode list \<Rightarrow> 'a micro list" where
  "submit_code ops err cl ms = ops @ [InsertOp err cl ms, DeliverOp]"

text \<open>The code of a call; a call without a gate has one step, apart from the preparation.\<close>

definition micro_code :: "'w::len word iy_env \<Rightarrow> api_call \<Rightarrow> 'w word micro list" where
  "micro_code env c = (let r = se_trlwe_bytes env; g = se_trgsw_bytes env in case c of
      Prepare k \<Rightarrow> [RuntimeOp, KeyOp k]
    | BinaryGate gt out left right k \<Rightarrow> [RuntimeOp, KeyOp k] @
        submit_code [TlweOp out, TlweOp left, TlweOp right] SubmitFailed
          (codeletFor (se_cufhepp env) (se_mu env) gt) [STARPU_W, STARPU_R, STARPU_R]
    | NotGate out i \<Rightarrow> RuntimeOp #
        submit_code [TlweOp out, TlweOp i] SubmitFailed notStarpuCodelet [STARPU_W, STARPU_R]
    | MuxGate out sel t f k \<Rightarrow> [RuntimeOp, KeyOp k] @
        submit_code [TlweOp out, TlweOp sel, TlweOp t, TlweOp f] SubmitFailed
          (muxStarpuCodelet (se_cufhepp env)) [STARPU_W, STARPU_R, STARPU_R, STARPU_R]
    | CmuxGate out sel t f \<Rightarrow> RuntimeOp #
        (if out = t then
           submit_code [VariableOp out r, VariableOp sel g, VariableOp f r] RamSubmitFailed
             (cmuxFFTInPlaceTrueStarpuCodelet (se_cufhepp env) (se_cuda_cmux env)) [STARPU_RW, STARPU_R, STARPU_R]
         else if out = f then
           submit_code [VariableOp out r, VariableOp sel g, VariableOp t r] RamSubmitFailed
             (cmuxFFTInPlaceFalseStarpuCodelet (se_cufhepp env) (se_cuda_cmux env)) [STARPU_RW, STARPU_R, STARPU_R]
         else
           submit_code [VariableOp out r, VariableOp sel g, VariableOp t r, VariableOp f r] RamSubmitFailed
             (cmuxFFTStarpuCodelet (se_cufhepp env) (se_cuda_cmux env))
             [STARPU_W, STARPU_R, STARPU_R, STARPU_R])
    | MuxWoSEGate out sel t f k \<Rightarrow> [RuntimeOp, KeyOp k] @
        submit_code [VariableOp out r, TlweOp sel, TlweOp t, TlweOp f] RamMuxSubmitFailed
          muxWoSEStarpuCodelet [STARPU_W, STARPU_R, STARPU_R, STARPU_R]
    | _ \<Rightarrow> [PlainOp c])"

primrec run_micros ::
  "'w::len word iy_env \<Rightarrow> 'w word micro list \<Rightarrow> call_locals \<Rightarrow> ('w word, 'r, 'g, call_locals) iy_act" where
  "run_micros env [] l = areturn l"
| "run_micros env (m # ms) l = abind (exec_micro env m l) (run_micros env ms)"

lemma abind_assoc: "abind (abind m f) g = abind m (\<lambda>x. abind (f x) g)"
  by (rule ext) (simp add: abind_def split: prod.split sum.split)

lemma abind_return [simp]: "abind (areturn x) f = f x" "abind m areturn = m"
  by (simp_all add: abind_def [abs_def] areturn_def fun_eq_iff split: prod.split sum.split)

text \<open>The cut is right: the steps of a call, run without interruption, are the call.\<close>

lemma iy_call_micros:
  "iy_call env c = abind (run_micros env (micro_code env c) no_locals) (\<lambda>l. areturn (lc_result l))"
  by (cases c)
    (simp_all add: iy_call_def micro_code_def submit_code_def Let_def no_locals_def abind_assoc prepareIyokanStarpu_def
      runIyokanStarpuBinaryGate_def runIyokanStarpuNot_def runIyokanStarpuMux_def runIyokanStarpuCMUXFFT_def
      runIyokanStarpuMuxWoSE_def submitAsync_def submitVariableAsync_def submitMuxWoSEAsync_def ensureStarpu_steps
      cong: if_cong)

section \<open>Threads\<close>

text \<open>
  A client thread: its capture (the thread_local variables), the call that it is in, if any, with the
  steps that are left, what the call is blocked in, and the exception it has thrown.
\<close>

record 'a thread =
  th_active :: bool
  th_captured :: "nat option"
  th_blocked :: "blocked option"
  th_call :: "api_call option"
  th_code :: "'a micro list"
  th_locals :: call_locals
  th_error :: "iyokan_error option"

definition idle_thread :: "'a thread" where
  "idle_thread = \<lparr>th_active = False, th_captured = None, th_blocked = None, th_call = None, th_code = [],
     th_locals = no_locals, th_error = None\<rparr>"

record ('a, 'r, 'g) par =
  shared :: "('a, 'r, 'g) backend"
  threads :: "nat \<Rightarrow> 'a thread"

text \<open>The backend as a thread sees it, with its own thread-local variables.\<close>

definition view :: "nat \<Rightarrow> ('a, 'r, 'g) par \<Rightarrow> ('a, 'r, 'g) backend" where
  "view i S = (let th = threads S i in
     (shared S)\<lparr>captureActive := th_active th, capturedTask := th_captured th, blocked_in := th_blocked th\<rparr>)"

definition store :: "nat \<Rightarrow> ('a, 'r, 'g) backend \<Rightarrow> 'a thread \<Rightarrow> ('a, 'r, 'g) par \<Rightarrow> ('a, 'r, 'g) par" where
  "store i s th S = S\<lparr>shared := s, threads := (threads S)(i := th\<lparr>th_active := captureActive s,
     th_captured := capturedTask s, th_blocked := blocked_in s\<rparr>)\<rparr>"

text \<open>What an execution shows: \<open>Commit\<close> is the submission of a task, \<open>Fetch\<close> and \<open>Publish\<close> are the
  returns of starpu_data_acquire for reading and for writing.\<close>

datatype ('a, 'r, 'g) event = Invoke nat api_call | Internal nat | Commit nat api_call nat
  | Fetch nat nat | Publish nat nat | HostWrite nat nat "('a, 'r, 'g) cell" | Completed nat
  | Return nat api_call "iyokan_error + nat option"

text \<open>The calls that threads make while the runtime is up.\<close>

definition concurrent_call :: "api_call \<Rightarrow> bool" where
  "concurrent_call c = (case c of Configure _ _ \<Rightarrow> False | Shutdown \<Rightarrow> False | _ \<Rightarrow> True)"

definition invoke :: "'w::len word iy_env \<Rightarrow> nat \<Rightarrow> api_call \<Rightarrow> ('w word, 'r, 'g) par \<Rightarrow> ('w word, 'r, 'g) par" where
  "invoke env i c S = S\<lparr>threads := (threads S)(i := (threads S i)\<lparr>th_call := Some c,
     th_code := micro_code env c, th_locals := no_locals, th_error := None\<rparr>)\<rparr>"

definition micro_step ::
  "'w::len word iy_env \<Rightarrow> nat \<Rightarrow> ('w word, 'r, 'g) par \<Rightarrow> ('w word, 'r, 'g) event \<times> ('w word, 'r, 'g) par" where
  "micro_step env i S = (let th = threads S i in case th_code th of
      [] \<Rightarrow> (Internal i, S)
    | m # ms \<Rightarrow> (case exec_micro env m (th_locals th) (view i S) of
          (Inl e, s) \<Rightarrow> (Internal i, store i s (th\<lparr>th_code := [], th_error := Some e\<rparr>) S)
        | (Inr l, s) \<Rightarrow>
            (case (m, th_call th, lc_task l) of
               (InsertOp _ _ _, Some c, Some t) \<Rightarrow> Commit i c t
             | _ \<Rightarrow> Internal i,
             store i s (th\<lparr>th_code := ms, th_locals := l\<rparr>) S)))"

text \<open>The address that a blocked call acquires, and the event of its return.\<close>

definition acquired :: "('a, 'r, 'g) backend \<Rightarrow> blocked \<Rightarrow> nat" where
  "acquired s b = hi_addr (handle_table s ! (case b of
      WaitForTask t \<Rightarrow> ts_output (states s ! t) | SyncOutput t \<Rightarrow> ts_output (states s ! t)
    | AcquireTlwe h \<Rightarrow> h | AcquireVariable h \<Rightarrow> h | WaitForAll \<Rightarrow> 0))"

definition wake_event :: "nat \<Rightarrow> blocked \<Rightarrow> ('a, 'r, 'g) backend \<Rightarrow> ('a, 'r, 'g) event" where
  "wake_event i b s = (case b of
      WaitForTask t \<Rightarrow> Fetch i (acquired s b) | SyncOutput t \<Rightarrow> Fetch i (acquired s b)
    | AcquireTlwe h \<Rightarrow> Publish i (acquired s b) | AcquireVariable h \<Rightarrow> Publish i (acquired s b)
    | WaitForAll \<Rightarrow> Internal i)"

definition wake_step ::
  "'w::len word iy_env \<Rightarrow> nat \<Rightarrow> blocked \<Rightarrow> ('w word, 'r, 'g) par \<Rightarrow> ('w word, 'r, 'g) event \<times> ('w word, 'r, 'g) par" where
  "wake_step env i b S = (case resume env b (view i S) of
      (Inl e, s) \<Rightarrow> (Internal i, store i s ((threads S i)\<lparr>th_error := Some e\<rparr>) S)
    | (Inr _, s) \<Rightarrow> (wake_event i b (shared S), store i s (threads S i) S))"

definition return_value :: "'a thread \<Rightarrow> iyokan_error + nat option" where
  "return_value th = (case th_error th of Some e \<Rightarrow> Inl e | None \<Rightarrow> Inr (lc_result (th_locals th)))"

definition leave :: "nat \<Rightarrow> ('a, 'r, 'g) par \<Rightarrow> ('a, 'r, 'g) par" where
  "leave i S = S\<lparr>threads := (threads S)(i := (threads S i)\<lparr>th_call := None\<rparr>)\<rparr>"

definition host_write :: "nat \<Rightarrow> ('a, 'r, 'g) cell \<Rightarrow> ('a, 'r, 'g) par \<Rightarrow> ('a, 'r, 'g) par" where
  "host_write a v S = S\<lparr>shared := (shared S)\<lparr>host := (host (shared S))(a := v)\<rparr>\<rparr>"

text \<open>
  One step of the threads and of StarPU. Clients call with addresses of the types of the C++
  signature (\<open>tls\<close> are the level-0 samples) and synchronise tasks that exist.
\<close>

inductive par_step ::
  "(nat, 'w::len word, 'r, 'g) iy_machine \<Rightarrow> 'w word iy_env \<Rightarrow> (nat \<Rightarrow> arch \<times> int) \<Rightarrow> nat set \<Rightarrow>
   ('w word, 'r, 'g) par \<Rightarrow> ('w word, 'r, 'g) event \<Rightarrow> ('w word, 'r, 'g) par \<Rightarrow> bool"
  for im env place tls where
  par_invoke: "th_call (threads S i) = None \<Longrightarrow> concurrent_call c \<Longrightarrow> typed_call tls c \<Longrightarrow>
     (\<forall>t. c = Synchronize t \<longrightarrow> t < length (tasks (shared S))) \<Longrightarrow>
     par_step im env place tls S (Invoke i c) (invoke env i c S)"
| par_micro: "th_code (threads S i) \<noteq> [] \<Longrightarrow> th_blocked (threads S i) = None \<Longrightarrow> micro_step env i S = (e, S') \<Longrightarrow>
     par_step im env place tls S e S'"
| par_wake: "th_blocked (threads S i) = Some b \<Longrightarrow> resumable (shared S) b \<Longrightarrow> wake_step env i b S = (e, S') \<Longrightarrow>
     par_step im env place tls S e S'"
| par_return: "th_call (threads S i) = Some c \<Longrightarrow> th_code (threads S i) = [] \<Longrightarrow> th_blocked (threads S i) = None \<Longrightarrow>
     par_step im env place tls S (Return i c (return_value (threads S i))) (leave i S)"
| par_write: "th_call (threads S i) = None \<Longrightarrow> par_step im env place tls S (HostWrite i a v) (host_write a v S)"
| par_complete: "can_complete (shared S) t \<Longrightarrow>
     par_step im env place tls S (Completed t) (S\<lparr>shared := complete_task im place t (shared S)\<rparr>)"

inductive par_run ::
  "(nat, 'w::len word, 'r, 'g) iy_machine \<Rightarrow> 'w word iy_env \<Rightarrow> (nat \<Rightarrow> arch \<times> int) \<Rightarrow> nat set \<Rightarrow>
   ('w word, 'r, 'g) par \<Rightarrow> ('w word, 'r, 'g) event list \<Rightarrow> ('w word, 'r, 'g) par \<Rightarrow> bool"
  for im env place tls where
  par_nil: "par_run im env place tls S [] S"
| par_snoc: "par_run im env place tls S es S' \<Longrightarrow> par_step im env place tls S' e S'' \<Longrightarrow>
     par_run im env place tls S (es @ [e]) S''"

text \<open>Where threads start: any state of the single-threaded model in which the runtime is prepared.\<close>

definition prepared_start ::
  "(nat, 'w::len word, 'r, 'g) iy_machine \<Rightarrow> 'w word iy_env \<Rightarrow> (nat \<Rightarrow> arch \<times> int) \<Rightarrow> nat set \<Rightarrow> nat \<Rightarrow>
   ('w word, 'r, 'g) par \<Rightarrow> bool" where
  "prepared_start im env place tls k S \<longleftrightarrow>
     iy_reachable im env place (shared S) \<and> typed tls (shared S) \<and> starpuRunning (shared S) \<and>
     currentEvalKey (shared S) = Some k \<and> threads S = (\<lambda>_. idle_thread)"

section \<open>The effect of one step of a call\<close>

text \<open>A runtime that is up with the key \<open>k\<close>.\<close>

definition up_with :: "nat set \<Rightarrow> nat \<Rightarrow> ('a, 'r, 'g) backend \<Rightarrow> bool" where
  "up_with tls k s \<longleftrightarrow> backend_inv s \<and> typed tls s \<and> starpuRunning s \<and> currentEvalKey s = Some k"

definition grows :: "('a, 'r, 'g) backend \<Rightarrow> ('a, 'r, 'g) backend \<Rightarrow> bool" where
  "grows s s' \<longleftrightarrow> length (tasks s) \<le> length (tasks s') \<and> length (handle_table s) \<le> length (handle_table s') \<and>
     (\<forall>a h. handle_of s a = Some h \<longrightarrow> handle_of s' a = Some h)"

text \<open>A step that neither submits a task nor changes what the client sees.\<close>

definition quiet ::
  "(nat, 'w::len word, 'r, 'g) iy_machine \<Rightarrow> (nat \<Rightarrow> arch \<times> int) \<Rightarrow> nat set \<Rightarrow> nat \<Rightarrow>
   ('w word, 'r, 'g) backend \<Rightarrow> ('w word, 'r, 'g) backend \<Rightarrow> bool" where
  "quiet im place tls k s s' \<longleftrightarrow> up_with tls k s' \<and> grows s s' \<and> tasks s' = tasks s \<and>
     callback_boxes s' = callback_boxes s \<and> mem im place s' = mem im place s \<and> host s' = host s"

lemma grows_refl: "grows s s"
  by (simp add: grows_def)

lemma quiet_refl: "up_with tls k s \<Longrightarrow> quiet im place tls k s s"
  by (simp add: quiet_def grows_refl)

lemma up_runtime: "up_with tls k s \<Longrightarrow> ensureStarpuRuntime env s = (Inr (), s)"
  by (simp add: up_with_def backend_inv_def life_ok_def ensureStarpuRuntime_def)

lemma quiet_frame:
  assumes "up_with tls k s" and "backend_inv s'"
    and "starpuRunning s' = starpuRunning s" "currentEvalKey s' = currentEvalKey s" "tasks s' = tasks s"
      "states s' = states s" "callback_boxes s' = callback_boxes s" "data s' = data s" "host s' = host s"
      "handle_table s' = handle_table s" "persistentHandles s' = persistentHandles s"
      "persistentVariableHandles s' = persistentVariableHandles s"
  shows "quiet im place tls k s s'"
proof -
  have "mem im place s' = mem im place s"
    using assms by (intro mem_cong seq_data_cong) simp_all
  moreover have "handle_of s' = handle_of s" using assms by (intro handle_of_cong) simp_all
  ultimately show ?thesis using assms by (simp add: quiet_def up_with_def grows_def typed_def)
qed

text \<open>The thread-local fields.\<close>

definition same_locals :: "('a, 'r, 'g) backend \<Rightarrow> ('a, 'r, 'g) backend \<Rightarrow> bool" where
  "same_locals s s' \<longleftrightarrow> captureActive s' = captureActive s \<and> capturedTask s' = capturedTask s \<and>
     blocked_in s' = blocked_in s"

lemma bind_key_quiet:
  assumes "up_with tls k s" and "bind_key env k' s = (r, s')"
  shows "quiet im place tls k s s' \<and> same_locals s s'"
proof -
  have "s' = s \<or> s' = initializeIyokanCufhepp env s"
    using assms by (auto simp: bind_key_def up_with_def split: if_split_asm)
  then show ?thesis
  proof
    assume s': "s' = initializeIyokanCufhepp env s"
    have "quiet im place tls k s s'" unfolding s'
      by (rule quiet_frame [OF assms(1) initializeIyokanCufhepp_inv])
        (use assms(1) in \<open>auto simp: up_with_def initializeIyokanCufhepp_def\<close>)
    then show ?thesis by (simp add: s' same_locals_def)
  qed (simp add: quiet_refl assms(1) same_locals_def)
qed

lemma same_view_quiet:
  assumes "up_with tls k s" and "same_view im place tls s s'" and "callback_boxes s' = callback_boxes s"
    and "length (handle_table s) \<le> length (handle_table s')"
  shows "quiet im place tls k s s' \<and> same_locals s s'"
  using assms by (simp add: quiet_def same_view_def same_client_def up_with_def grows_def same_locals_def)

lemma tlwe_quiet:
  assumes up: "up_with tls k s" and "a \<in> tls" and run: "persistentHandleFor env a s = (r, s')"
  shows "\<exists>h. r = Inr h \<and> handle_of s' a = Some h \<and> quiet im place tls k s s' \<and> same_locals s s'"
proof -
  have s: "backend_inv s" "typed tls s" "starpuRunning s" using up by (simp_all add: up_with_def)
  have s': "s' = enter_tlwe env a s" and r: "r = Inr (the (persistentHandles s' a))"
    using tlwe_registry.handle_for_up [OF s(3), of env a] run by auto
  have v: "same_view im place tls s s'" unfolding s' by (rule enter_tlwe_view [OF s assms(2)])
  have "persistentHandles s' a \<noteq> None" unfolding s' by (rule tlwe_registry.entered)
  moreover have "typed tls s'" using v by (simp add: same_view_def)
  ultimately have "handle_of s' a = Some (the (persistentHandles s' a))"
    by (metis handle_of_typed(1) option.exhaust_sel)
  with r same_view_quiet [OF up v] show ?thesis by (simp add: s' enter_tlwe_def)
qed

lemma variable_quiet:
  assumes up: "up_with tls k s" and "a \<notin> tls" and run: "persistentVariableHandleFor bytes a s = (r, s')"
  shows "\<exists>h. r = Inr h \<and> handle_of s' a = Some h \<and> quiet im place tls k s s' \<and> same_locals s s'"
proof -
  have s: "backend_inv s" "typed tls s" "starpuRunning s" using up by (simp_all add: up_with_def)
  have s': "s' = enter_variable (a, bytes) s" and r: "r = Inr (the (persistentVariableHandles s' a))"
    using variable_registry.handle_for_up [OF s(3), of "(a, bytes)"] run by auto
  have v: "same_view im place tls s s'" unfolding s' using enter_variable_view [OF s] assms(2) by simp
  have "persistentVariableHandles s' a \<noteq> None" unfolding s' using variable_registry.entered [of "(a, bytes)" s] by simp
  moreover have "typed tls s'" using v by (simp add: same_view_def)
  ultimately have "handle_of s' a = Some (the (persistentVariableHandles s' a))"
    by (metis handle_of_typed(2) option.exhaust_sel)
  with r same_view_quiet [OF up v] show ?thesis by (simp add: s' enter_variable_def)
qed

text \<open>A submission either fails and changes nothing that counts, or applies its gate.\<close>

lemma insert_commits:
  assumes up: "up_with tls k s" and fits: "codelet_fits m n cl" and len: "length as = Suc n"
    and hs: "map (handle_of s) as = map Some hs"
    and run: "insert_task env err cl (zip hs (m # replicate n STARPU_R)) s = (r, s')"
  shows "same_locals s s' \<and> grows s s' \<and> (case r of
      Inl e \<Rightarrow> quiet im place tls k s s'
    | Inr t \<Rightarrow> up_with tls k s' \<and> t = length (tasks s) \<and> length (tasks s') = Suc t \<and> host s' = host s \<and>
        handle_of s' = handle_of s \<and> length (callback_boxes s') = Suc (length (callback_boxes s)) \<and>
        mem im place s' = apply_gate im (Some k) (place t) cl as (mem im place s))"
proof (cases r)
  case (Inl e)
  then have s': "s' = s\<lparr>attempts := Suc (attempts s)\<rparr>"
    using run up by (auto simp: insert_task_def Let_def up_with_def split: if_split_asm)
  have "quiet im place tls k s s'"
    unfolding s' by (rule quiet_frame [OF up]) (use up update_memory_inv(3) in \<open>auto simp: up_with_def\<close>)
  then show ?thesis using Inl by (simp add: same_locals_def s' quiet_def)
next
  case (Inr t)
  have sub: "gate_submitted im place tls cl as s t s'"
    using insert_task_submits [OF _ _ fits len hs] run Inr up by (simp add: up_with_def)
  have s': "handle_table s' = handle_table s" "persistentHandles s' = persistentHandles s"
    "persistentVariableHandles s' = persistentVariableHandles s"
    "length (callback_boxes s') = Suc (length (callback_boxes s))"
    using run Inr by (auto simp: insert_task_def Let_def split: if_split_asm)
  from handle_of_cong [OF s'(2,3)] show ?thesis
    using sub s' Inr up
    by (simp add: gate_submitted_def same_client_def same_locals_def up_with_def grows_def)
qed

lemma deliver_quiet:
  assumes up: "up_with tls k s" and t: "t < length (tasks s)" and "blocked_in s = None"
    and run: "deliver t s = (r, s')"
  shows "r = Inr () \<and> quiet im place tls k s s' \<and> blocked_in s' \<noteq> Some WaitForAll"
proof -
  have fields: "r = Inr () \<and> starpuRunning s' = starpuRunning s \<and> currentEvalKey s' = currentEvalKey s \<and>
      tasks s' = tasks s \<and> states s' = states s \<and> callback_boxes s' = callback_boxes s \<and> data s' = data s \<and>
      host s' = host s \<and> handle_table s' = handle_table s \<and> persistentHandles s' = persistentHandles s \<and>
      persistentVariableHandles s' = persistentVariableHandles s \<and> blocked_in s' \<noteq> Some WaitForAll"
    using run assms(3) by (auto simp: deliver_def captureTask_def split: if_split_asm)
  moreover have "backend_inv s'"
    using act_spec_Inr [OF deliver_spec [of t], of s "()" s'] up t run fields by (simp add: up_with_def)
  ultimately show ?thesis using quiet_frame [OF up] by blast
qed

lemma micro_code_plain:
  assumes "PlainOp c' \<in> set (micro_code env c)" and "concurrent_call c"
  shows "c' = c \<and> micro_code env c = [PlainOp c] \<and> gate_of env c = None \<and> c \<noteq> Shutdown \<and>
    (\<forall>x y. c \<noteq> Configure x y) \<and> (\<forall>k. c \<noteq> Prepare k)"
  using assms
  by (cases c) (auto simp: micro_code_def submit_code_def Let_def concurrent_call_def gate_of_def split: if_split_asm)

lemma plain_quiet:
  assumes up: "up_with tls k s" and "blocked_in s = None" and "\<forall>t. c = Synchronize t \<longrightarrow> t < length (tasks s)"
    and c: "concurrent_call c" "micro_code env c = [PlainOp c]" and run: "iy_call env c s = (r, s')"
  shows "quiet im place tls k s s' \<and> blocked_in s' \<noteq> Some WaitForAll \<and> (\<forall>e. r = Inl e \<longrightarrow> blocked_in s' = None)"
proof -
  have inv: "backend_inv s'"
    using iy_call_inv [of s c env] up assms(3) run by (simp add: up_with_def)
  have "starpuRunning s' = starpuRunning s \<and> currentEvalKey s' = currentEvalKey s \<and> tasks s' = tasks s \<and>
      states s' = states s \<and> callback_boxes s' = callback_boxes s \<and> data s' = data s \<and> host s' = host s \<and>
      handle_table s' = handle_table s \<and> persistentHandles s' = persistentHandles s \<and>
      persistentVariableHandles s' = persistentVariableHandles s \<and> blocked_in s' \<noteq> Some WaitForAll \<and>
      (\<forall>e. r = Inl e \<longrightarrow> blocked_in s' = None)"
    using c run assms(2)
    by (cases c) (auto simp: iy_call_def concurrent_call_def micro_code_def submit_code_def Let_def abind_def act_simps
        beginIyokanStarpuCapture_def endIyokanStarpuCapture_def synchronizeIyokanStarpuCapture_def
        markIyokanTLWEHostWrite_def markVariableHostWrite_def synchronizeOutput_def
        split: if_split_asm option.split_asm)
  with quiet_frame [OF up inv] show ?thesis by blast
qed

section \<open>The invariant of concurrent executions\<close>

primrec micro_lookup :: "'a micro \<Rightarrow> nat list" where
  "micro_lookup RuntimeOp = []"
| "micro_lookup (KeyOp k) = []"
| "micro_lookup (TlweOp a) = [a]"
| "micro_lookup (VariableOp a bytes) = [a]"
| "micro_lookup (InsertOp err cl ms) = []"
| "micro_lookup DeliverOp = []"
| "micro_lookup (PlainOp c) = []"

definition looked_up :: "'a micro list \<Rightarrow> nat list" where
  "looked_up ops = concat (map micro_lookup ops)"

primrec is_insert :: "'a micro \<Rightarrow> bool" where
  "is_insert RuntimeOp = False"
| "is_insert (KeyOp k) = False"
| "is_insert (TlweOp a) = False"
| "is_insert (VariableOp a bytes) = False"
| "is_insert (InsertOp err cl ms) = True"
| "is_insert DeliverOp = False"
| "is_insert (PlainOp c) = False"

lemma looked_up_append [simp]: "looked_up (xs @ ys) = looked_up xs @ looked_up ys"
  and looked_up_single [simp]: "looked_up [m] = micro_lookup m" "looked_up [] = []"
  by (simp_all add: looked_up_def)

text \<open>
  A thread in the middle of a call: the steps before the rest of its code have been made, the handles found
  are those of the addresses looked up, and the task exists once it has been submitted.
\<close>

definition locals_ok :: "('a, 'r, 'g) backend \<Rightarrow> 'a micro list \<Rightarrow> call_locals \<Rightarrow> bool" where
  "locals_ok s pre l \<longleftrightarrow> map (handle_of s) (looked_up pre) = map Some (lc_handles l) \<and>
     (lc_task l \<noteq> None \<longleftrightarrow> (\<exists>m \<in> set pre. is_insert m)) \<and> (\<forall>t. lc_task l = Some t \<longrightarrow> t < length (tasks s))"

definition frame_ok :: "'w::len word iy_env \<Rightarrow> nat set \<Rightarrow> ('w word, 'r, 'g) backend \<Rightarrow> 'w word thread \<Rightarrow> bool" where
  "frame_ok env tls s th \<longleftrightarrow> th_blocked th \<noteq> Some WaitForAll \<and> (case th_call th of
      None \<Rightarrow> th_code th = [] \<and> th_blocked th = None
    | Some c \<Rightarrow> concurrent_call c \<and> typed_call tls c \<and> (\<forall>t. c = Synchronize t \<longrightarrow> t < length (tasks s)) \<and>
        (th_code th \<noteq> [] \<longrightarrow> th_blocked th = None \<and> th_error th = None) \<and>
        (th_error th = None \<longrightarrow>
           (\<exists>pre. micro_code env c = pre @ th_code th \<and> locals_ok s pre (th_locals th))))"

lemma micro_code_types:
  assumes "typed_call tls c"
  shows "TlweOp a \<in> set (micro_code env c) \<Longrightarrow> a \<in> tls"
    and "VariableOp a bytes \<in> set (micro_code env c) \<Longrightarrow> a \<notin> tls"
  using assms
  by (cases c; force simp: micro_code_def submit_code_def Let_def typed_call_def split: if_split_asm)+

lemma micro_code_insert:
  assumes "micro_code env c = pre @ InsertOp err cl acc # ms"
  shows "gate_of env c = Some (cl, looked_up pre) \<and> codelet_fits (hd acc) (length acc - 1) cl \<and>
    acc = hd acc # replicate (length acc - 1) STARPU_R \<and> length (looked_up pre) = Suc (length acc - 1) \<and>
    \<not> (\<exists>m \<in> set pre. is_insert m)"
proof -
  note fits = codelets_fit muxWoSE_fits
  note fits' = fits [unfolded numeral_2_eq_2 numeral_3_eq_3 One_nat_def]
  show ?thesis
    using assms
    by (cases c) (auto simp: micro_code_def submit_code_def Let_def gate_of_def Cons_eq_append_conv
      looked_up_def fits' split: if_split_asm)
qed

lemma micro_code_deliver:
  assumes "micro_code env c = pre @ DeliverOp # ms"
  shows "ms = [] \<and> (\<exists>m \<in> set pre. is_insert m)"
  using assms
  by (cases c) (auto simp: micro_code_def submit_code_def Let_def Cons_eq_append_conv split: if_split_asm)

lemma map_Some_mono:
  "map f as = map Some hs \<Longrightarrow> (\<And>a h. f a = Some h \<Longrightarrow> f' a = Some h) \<Longrightarrow> map f' as = map Some hs"
  by (induction as arbitrary: hs) auto

lemma locals_ok_grows:
  assumes "locals_ok s pre l" and "grows s s'"
  shows "locals_ok s' pre l"
proof -
  have "map (handle_of s') (looked_up pre) = map Some (lc_handles l)"
    by (rule map_Some_mono [of "handle_of s"]) (use assms in \<open>auto simp: locals_ok_def grows_def\<close>)
  then show ?thesis using assms by (auto simp: locals_ok_def grows_def)
qed

text \<open>What one step of a call does, in the state that its thread sees.\<close>

definition micro_effect ::
  "(nat, 'w::len word, 'r, 'g) iy_machine \<Rightarrow> 'w word iy_env \<Rightarrow> (nat \<Rightarrow> arch \<times> int) \<Rightarrow> nat set \<Rightarrow> nat \<Rightarrow> api_call \<Rightarrow>
   'w word micro \<Rightarrow> call_locals \<Rightarrow> ('w word, 'r, 'g) backend \<Rightarrow> ('w word, 'r, 'g) backend \<Rightarrow> bool" where
  "micro_effect im env place tls k c m l s s' \<longleftrightarrow>
     (if is_insert m
      then \<exists>cl as. gate_of env c = Some (cl, as) \<and> set as \<subseteq> dom (handle_of s) \<and> handle_of s' = handle_of s \<and>
         lc_task l = Some (length (tasks s)) \<and> host s' = host s \<and>
         length (callback_boxes s') = Suc (length (callback_boxes s)) \<and>
         mem im place s' = apply_gate im (Some k) (place (length (tasks s))) cl as (mem im place s)
      else quiet im place tls k s s')"

lemma micro_step_effect:
  assumes up: "up_with tls k s" and blk: "blocked_in s = None" and c: "concurrent_call c" "typed_call tls c"
    and sync: "\<forall>t. c = Synchronize t \<longrightarrow> t < length (tasks s)" and code: "micro_code env c = pre @ m # ms"
    and ok: "locals_ok s pre l" and run: "exec_micro env m l s = (r, s')"
  shows "up_with tls k s' \<and> grows s s' \<and> blocked_in s' \<noteq> Some WaitForAll \<and> (ms \<noteq> [] \<longrightarrow> blocked_in s' = None) \<and>
    (case r of Inl e \<Rightarrow> quiet im place tls k s s' \<and> blocked_in s' = None
     | Inr l' \<Rightarrow> locals_ok s' (pre @ [m]) l' \<and> micro_effect im env place tls k c m l' s s')"
    (is "?goal m")
proof -
  have in_code: "m \<in> set (micro_code env c)" by (simp add: code)
  have q: "quiet im place tls k s s2 \<Longrightarrow> up_with tls k s2 \<and> grows s s2" for s2 by (simp add: quiet_def)
  show ?thesis
  proof (cases m)
    case RuntimeOp
    then show ?thesis
      using run ok blk quiet_refl [OF up] up
      by (auto simp: abind_def up_runtime [OF up] act_simps locals_ok_def micro_effect_def grows_refl)
  next
    case (KeyOp k')
    with run obtain r' where bk: "bind_key env k' s = (r', s')" and r: "r = (case r' of Inl e \<Rightarrow> Inl e | Inr _ \<Rightarrow> Inr l)"
      by (auto simp: abind_def act_simps split: prod.split_asm sum.split_asm)
    from bind_key_quiet [OF up bk, of im place] have "quiet im place tls k s s'" "same_locals s s'" by simp_all
    then show ?thesis
      using q locals_ok_grows [OF ok, of s'] KeyOp r blk
      by (auto simp: micro_effect_def same_locals_def locals_ok_def split: sum.split)
  next
    case (TlweOp a)
    with in_code c(2) have a: "a \<in> tls" by (auto intro: micro_code_types(1))
    from TlweOp run obtain r' where ph: "persistentHandleFor env a s = (r', s')"
      and r: "r = (case r' of Inl e \<Rightarrow> Inl e | Inr h \<Rightarrow> Inr (l\<lparr>lc_handles := lc_handles l @ [h]\<rparr>))"
      by (auto simp: abind_def act_simps split: prod.split_asm sum.split_asm)
    from tlwe_quiet [OF up a ph, of im place] obtain h where
      "r' = Inr h" "handle_of s' a = Some h" "quiet im place tls k s s'" "same_locals s s'" by blast
    then show ?thesis
      using q locals_ok_grows [OF ok, of s'] TlweOp r blk
      by (auto simp: micro_effect_def same_locals_def locals_ok_def)
  next
    case (VariableOp a bytes)
    with in_code c(2) have a: "a \<notin> tls" by (auto dest: micro_code_types(2))
    from VariableOp run obtain r' where ph: "persistentVariableHandleFor bytes a s = (r', s')"
      and r: "r = (case r' of Inl e \<Rightarrow> Inl e | Inr h \<Rightarrow> Inr (l\<lparr>lc_handles := lc_handles l @ [h]\<rparr>))"
      by (auto simp: abind_def act_simps split: prod.split_asm sum.split_asm)
    from variable_quiet [OF up a ph, of im place] obtain h where
      "r' = Inr h" "handle_of s' a = Some h" "quiet im place tls k s s'" "same_locals s s'" by blast
    then show ?thesis
      using q locals_ok_grows [OF ok, of s'] VariableOp r blk
      by (auto simp: micro_effect_def same_locals_def locals_ok_def)
  next
    case (InsertOp err cl acc)
    from micro_code_insert [OF code [unfolded InsertOp]]
    have g: "gate_of env c = Some (cl, looked_up pre)" and fits: "codelet_fits (hd acc) (length acc - 1) cl"
      and acc: "acc = hd acc # replicate (length acc - 1) STARPU_R"
      and len: "length (looked_up pre) = Suc (length acc - 1)" and none: "\<not> (\<exists>m \<in> set pre. is_insert m)" by auto
    have hs: "map (handle_of s) (looked_up pre) = map Some (lc_handles l)" using ok by (simp add: locals_ok_def)
    from InsertOp run obtain r' where ins: "insert_task env err cl (zip (lc_handles l) acc) s = (r', s')"
      and r: "r = (case r' of Inl e \<Rightarrow> Inl e | Inr t \<Rightarrow> Inr (l\<lparr>lc_task := Some t\<rparr>))"
      by (auto simp: abind_def act_simps split: prod.split_asm sum.split_asm)
    from acc ins have "insert_task env err cl (zip (lc_handles l) (hd acc # replicate (length acc - 1) STARPU_R)) s = (r', s')"
      by metis
    note com = insert_commits [OF up fits len hs this, of im place]
    have dom: "set (looked_up pre) \<subseteq> dom (handle_of s)"
      using hs by (metis (no_types, opaque_lifting) domI imageE image_eqI list.set_map subsetI)
    show ?thesis
    proof (cases r')
      case (Inl e)
      then show ?thesis using com r q blk by (auto simp: same_locals_def)
    next
      case (Inr t)
      then show ?thesis
        using com r blk g dom InsertOp hs by (auto simp: same_locals_def micro_effect_def locals_ok_def)
    qed
  next
    case DeliverOp
    with micro_code_deliver code have ms: "ms = []" and "\<exists>m \<in> set pre. is_insert m" by metis+
    then obtain t where t: "lc_task l = Some t" "t < length (tasks s)" using ok by (auto simp: locals_ok_def)
    with run DeliverOp obtain r' where del: "deliver t s = (r', s')" and r: "r = (case r' of Inl e \<Rightarrow> Inl e | Inr _ \<Rightarrow> Inr l)"
      by (auto simp: abind_def act_simps split: prod.split_asm sum.split_asm)
    from deliver_quiet [OF up t(2) blk del, of im place] show ?thesis
      using q locals_ok_grows [OF ok, of s'] DeliverOp r ms
      by (auto simp: micro_effect_def locals_ok_def)
  next
    case (PlainOp c')
    with in_code micro_code_plain [OF _ c(1), of c' env] have c': "c' = c" "micro_code env c = [PlainOp c]" by auto
    from PlainOp run obtain r' where call: "iy_call env c s = (r', s')"
      and r: "r = (case r' of Inl e \<Rightarrow> Inl e | Inr x \<Rightarrow> Inr (l\<lparr>lc_result := x\<rparr>))"
      by (auto simp: abind_def act_simps c' split: prod.split_asm sum.split_asm)
    have "ms = []" using code [unfolded c'(2)] by (cases pre) auto
    with plain_quiet [OF up blk sync c(1) c'(2) call, of im place] show ?thesis
      using q locals_ok_grows [OF ok, of s'] PlainOp r
      by (auto simp: micro_effect_def locals_ok_def split: sum.split)
  qed
qed

definition par_inv :: "'w::len word iy_env \<Rightarrow> nat set \<Rightarrow> nat \<Rightarrow> ('w word, 'r, 'g) par \<Rightarrow> bool" where
  "par_inv env tls k S \<longleftrightarrow> (\<forall>i. up_with tls k (view i S) \<and> frame_ok env tls (shared S) (threads S i))"

lemma view_fields [simp]:
  "tasks (view i S) = tasks (shared S)" "states (view i S) = states (shared S)" "data (view i S) = data (shared S)"
  "host (view i S) = host (shared S)" "handle_table (view i S) = handle_table (shared S)"
  "callback_boxes (view i S) = callback_boxes (shared S)" "starpuRunning (view i S) = starpuRunning (shared S)"
  "currentEvalKey (view i S) = currentEvalKey (shared S)" "blocked_in (view i S) = th_blocked (threads S i)"
  "persistentHandles (view i S) = persistentHandles (shared S)"
  "persistentVariableHandles (view i S) = persistentVariableHandles (shared S)"
  by (simp_all add: view_def Let_def)

lemma view_same [simp]:
  "mem im place (view i S) = mem im place (shared S)" "handle_of (view i S) = handle_of (shared S)"
  "typed tls (view i S) = typed tls (shared S)" "unfinished (view i S) = unfinished (shared S)"
  "resumable (view i S) b = resumable (shared S) b" "can_complete (view i S) t = can_complete (shared S) t"
  "locals_ok (view i S) pre l = locals_ok (shared S) pre l" "acquired (view i S) b = acquired (shared S) b"
  "frame_ok env tls (view i S) th = frame_ok env tls (shared S) th"
proof -
  show m: "mem im place (view i S) = mem im place (shared S)" by (intro mem_cong seq_data_cong) simp_all
  show h: "handle_of (view i S) = handle_of (shared S)" by (rule handle_of_cong) simp_all
  show "typed tls (view i S) = typed tls (shared S)" by (simp add: typed_def)
  show u: "unfinished (view i S) = unfinished (shared S)" by (rule unfinished_cong) simp_all
  show "resumable (view i S) b = resumable (shared S) b"
    by (cases b) (simp_all add: resumable_def isFinished_def readable_def writable_def u)
  show "can_complete (view i S) t = can_complete (shared S) t" by (simp add: can_complete_def u)
  show l: "locals_ok (view i S) pre l = locals_ok (shared S) pre l" for pre l by (simp add: locals_ok_def h)
  show "acquired (view i S) b = acquired (shared S) b" by (cases b) (simp_all add: acquired_def)
  show "frame_ok env tls (view i S) th = frame_ok env tls (shared S) th" by (simp add: frame_ok_def l cong: option.case_cong)
qed

lemma view_store: "view j (store i s th S) = (if j = i then s else
    s\<lparr>captureActive := th_active (threads S j), capturedTask := th_captured (threads S j),
      blocked_in := th_blocked (threads S j)\<rparr>)"
  by (simp add: view_def store_def Let_def)

lemma shared_store [simp]: "shared (store i s th S) = s"
  "threads (store i s th S) j = (if j = i then th\<lparr>th_active := captureActive s, th_captured := capturedTask s,
     th_blocked := blocked_in s\<rparr> else threads S j)"
  by (simp_all add: store_def)

text \<open>When one thread makes a step, the others keep their invariant.\<close>

lemma up_with_locals:
  assumes "up_with tls k s" and "backend_inv (s\<lparr>captureActive := x, capturedTask := y, blocked_in := b\<rparr>)"
  shows "up_with tls k (s\<lparr>captureActive := x, capturedTask := y, blocked_in := b\<rparr>)"
  using assms by (simp add: up_with_def typed_def)

lemma frame_ok_grows:
  assumes "frame_ok env tls s th" and "grows s s'"
  shows "frame_ok env tls s' th"
proof (cases "th_call th")
  case (Some c)
  then show ?thesis
    using assms locals_ok_grows [of s _ "th_locals th" s'] unfolding frame_ok_def
    by (auto simp: grows_def intro: order_less_le_trans)
qed (use assms(1) in \<open>simp add: frame_ok_def\<close>)

lemma refs_grow:
  assumes "refs_ok s0" and "length (tasks s0) \<le> length (tasks s)" "length (handle_table s0) \<le> length (handle_table s)"
    and "starpuRunning s"
  shows "(\<forall>t. capturedTask s0 = Some t \<longrightarrow> captureActive s0 \<and> t < length (tasks s)) \<and>
    (\<forall>b. blocked_in s0 = Some b \<longrightarrow> blocked_ok (length (tasks s)) (length (handle_table s)) (starpuRunning s) b)"
  using assms blocked_ok_mono [OF _ assms(2,3)] unfolding refs_ok_def by (metis order_less_le_trans)

lemma par_inv_store:
  assumes inv: "par_inv env tls k S" and s: "up_with tls k s" "grows (shared S) s"
    and th: "frame_ok env tls s (th\<lparr>th_active := captureActive s, th_captured := capturedTask s, th_blocked := blocked_in s\<rparr>)"
  shows "par_inv env tls k (store i s th S)"
  unfolding par_inv_def
proof
  fix j
  show "up_with tls k (view j (store i s th S)) \<and> frame_ok env tls (shared (store i s th S)) (threads (store i s th S) j)"
  proof (cases "j = i")
    case True
    then show ?thesis using s(1) th by (simp add: view_store)
  next
    case False
    have j: "up_with tls k (view j S)" "frame_ok env tls (shared S) (threads S j)" using inv by (auto simp: par_inv_def)
    have "refs_ok (view j S)" using j(1) by (simp add: up_with_def backend_inv_def)
    from refs_grow [OF this, of s] s have refs:
      "(\<forall>t. th_captured (threads S j) = Some t \<longrightarrow> th_active (threads S j) \<and> t < length (tasks s)) \<and>
       (\<forall>b. th_blocked (threads S j) = Some b \<longrightarrow> blocked_ok (length (tasks s)) (length (handle_table s)) (starpuRunning s) b)"
      by (simp add: grows_def up_with_def view_def Let_def)
    have "up_with tls k (view j (store i s th S))"
      using False refs up_with_locals [OF s(1) update_client_inv] s(1) by (simp add: view_store up_with_def typed_def)
    then show ?thesis using False frame_ok_grows [OF j(2) s(2)] by simp
  qed
qed

text \<open>The return of starpu_data_acquire.\<close>

definition acquire_effect ::
  "(nat, 'w::len word, 'r, 'g) iy_machine \<Rightarrow> (nat \<Rightarrow> arch \<times> int) \<Rightarrow> bool \<Rightarrow> blocked \<Rightarrow>
   ('w word, 'r, 'g) backend \<Rightarrow> ('w word, 'r, 'g) backend \<Rightarrow> bool" where
  "acquire_effect im place ok b s s' \<longleftrightarrow> (let a = acquired s b; m = mem im place s; h = host s in
     if \<not> ok then mem im place s' = m \<and> host s' = h
     else case b of
         AcquireTlwe _ \<Rightarrow> mem im place s' = m(a := h a) \<and> host s' = h
       | AcquireVariable _ \<Rightarrow> mem im place s' = m(a := h a) \<and> host s' = h
       | _ \<Rightarrow> mem im place s' = m \<and> host s' = h(a := m a))"

text \<open>What an acquisition does not touch.\<close>

definition same_registry :: "('a, 'r, 'g) backend \<Rightarrow> ('a, 'r, 'g) backend \<Rightarrow> bool" where
  "same_registry s s' \<longleftrightarrow> tasks s' = tasks s \<and> callback_boxes s' = callback_boxes s \<and>
     handle_table s' = handle_table s \<and> blocked_in s' = blocked_in s \<and>
     currentEvalKey s' = currentEvalKey s \<and> starpuRunning s' = starpuRunning s \<and>
     persistentHandles s' = persistentHandles s \<and> persistentVariableHandles s' = persistentVariableHandles s"

lemma same_registryD: "same_registry s s' \<Longrightarrow> handle_of s' = handle_of s \<and> typed tls s' = typed tls s"
  by (auto simp: same_registry_def typed_def intro!: handle_of_cong)

lemma acquire_fields:
  "acquire_read env t s = (r, s') \<Longrightarrow> same_registry s s'"
  "acquire_write env err h s = (r, s') \<Longrightarrow> same_registry s s'"
  by (auto simp: acquire_read_def acquire_write_def Let_def same_registry_def split: if_split_asm)

lemma pending_proj:
  assumes "tasks s' = tasks s" and "\<And>t. ts_finished (states s' ! t) = ts_finished (states s ! t)"
  shows "pending s' = pending s"
proof -
  have "unfinished s' = unfinished s" using assms by (simp add: unfinished_def fun_eq_iff)
  then show ?thesis using assms(1) by (simp add: pending_def)
qed

lemma acquire_read_error:
  assumes "acquire_read env t s = (Inl e, s')"
  shows "mem im place s' = mem im place s \<and> host s' = host s"
proof -
  have s': "s' = s \<or> s' = s\<lparr>states := (states s)[t := (states s ! t)\<lparr>ts_error := se_acquire env (ts_output (states s ! t))\<rparr>]\<rparr>"
    using assms by (auto simp: acquire_read_def Let_def split: if_split_asm)
  then have "pending s' = pending s" by (intro pending_proj) (auto simp: proj_nth_list_update)
  then have "seq_data im place s' = seq_data im place s" using s' by (auto simp: seq_data_def)
  then show ?thesis using s' by (auto intro!: mem_cong)
qed

lemma wake_effect:
  assumes up: "up_with tls k s" and blk: "blocked_in s = Some b" "b \<noteq> WaitForAll" and ready: "resumable s b"
    and run: "resume env b s = (r, s')"
  shows "up_with tls k s' \<and> grows s s' \<and> blocked_in s' = None \<and> callback_boxes s' = callback_boxes s \<and>
    handle_of s' = handle_of s \<and> acquire_effect im place (\<exists>x. r = Inr x) b s s'"
proof -
  let ?s = "s\<lparr>blocked_in := None\<rparr>"
  have s: "backend_inv s" "typed tls s" using up by (simp_all add: up_with_def)
  have inv: "backend_inv ?s" "typed tls ?s" using s unblock_inv [OF s(1)] by (simp_all add: unblock_same)
  have refs: "blocked_ok (length (tasks s)) (length (handle_table s)) (starpuRunning s) b"
    using s(1) blk by (simp add: backend_inv_def refs_ok_def)
  have inv': "backend_inv s'" using resume_inv [OF s(1) blk(1) ready, of env] run by simp
  have same: "tasks ?s = tasks s" "states ?s = states s" "handle_table ?s = handle_table s" "host ?s = host s"
    "callback_boxes ?s = callback_boxes s" "currentEvalKey ?s = currentEvalKey s" "starpuRunning ?s = starpuRunning s"
    by simp_all
  have rd: "acquire_read env t ?s = (r, s') \<Longrightarrow> t < length (tasks s) \<Longrightarrow> readable s (ts_output (states s ! t)) \<Longrightarrow>
      acquired s b = hi_addr (handle_table s ! ts_output (states s ! t)) \<Longrightarrow>
      if \<exists>x. r = Inr x then mem im place s' = mem im place s \<and> host s' = (host s)(acquired s b := mem im place s (acquired s b))
      else mem im place s' = mem im place s \<and> host s' = host s" for t
    using acquire_read_mem [OF inv, of t env _ s' _ im place] acquire_read_error [of env t ?s _ s' im place]
    by (cases r) (simp_all add: unblock_same same)
  have wr: "acquire_write env err h ?s = (r, s') \<Longrightarrow> h < length (handle_table s) \<Longrightarrow> writable s h \<Longrightarrow>
      acquired s b = hi_addr (handle_table s ! h) \<Longrightarrow>
      if \<exists>x. r = Inr x then mem im place s' = (mem im place s)(acquired s b := host s (acquired s b)) \<and> host s' = host s
      else mem im place s' = mem im place s \<and> host s' = host s" for err h
  proof (cases r)
    case (Inl e)
    moreover assume "acquire_write env err h ?s = (r, s')"
    ultimately have "s' = ?s" by (auto simp: acquire_write_def split: if_split_asm)
    then show ?thesis using Inl by (simp add: unblock_same)
  next
    case (Inr x)
    assume a: "acquire_write env err h ?s = (r, s')" "h < length (handle_table s)" "writable s h"
      "acquired s b = hi_addr (handle_table s ! h)"
    then have "hi_live (handle_table s ! h)" using Inr by (auto simp: acquire_write_def split: if_split_asm)
    from live_handle [OF s a(2) this] a(4) have h: "handle_of ?s (acquired s b) = Some h" by (simp add: unblock_same)
    have "host s' = host s" using a(1) Inr by (auto simp: acquire_write_def split: if_split_asm)
    then show ?thesis
      using acquire_write_mem [OF inv(1) h, of env err x s' im place] a Inr by (simp add: unblock_same)
  qed
  have eff: "acquire_effect im place (\<exists>x. r = Inr x) b s s'"
    using rd wr run ready refs blk(2)
    by (cases b) (auto simp: acquire_effect_def Let_def resume_def resumable_def acquired_def split: if_split_asm)
  have reg: "same_registry ?s s'"
    using run blk(2) acquire_fields [where s = ?s] by (cases b) (auto simp: resume_def)
  then have "handle_of s' = handle_of s" "typed tls s'"
    using same_registryD [of ?s s' tls] inv(2) by (simp_all add: unblock_same)
  with reg have "tasks s' = tasks s \<and> callback_boxes s' = callback_boxes s \<and> handle_of s' = handle_of s \<and>
      handle_table s' = handle_table s \<and> blocked_in s' = None \<and> currentEvalKey s' = currentEvalKey s \<and>
      starpuRunning s' = starpuRunning s \<and> typed tls s'"
    by (simp add: same_registry_def)
  with eff inv' up show ?thesis by (simp add: up_with_def grows_def)
qed

end
