(* ===== verification/Iyokan_Guarantees.thy ===== *)
theory Iyokan_Guarantees
  imports Iyokan_Client
begin

text \<open>
  The guarantees of the KVSP runtime (src/src/iyokan-starpu-codelets.cpp and
  src/include/iyokan-starpu-offload.hpp), stated on reachable states of its
  transition relation: what a gate call delivers, that blocked calls can
  return, what a completion token covers, what each failure leaves behind, and
  what holds after a shutdown.
\<close>

section \<open>A concrete environment\<close>

definition sample_env :: "32 word iy_env" where
  "sample_env =
     \<lparr>se_init = (\<lambda>_. 0), se_insert = (\<lambda>n. if n = 9 then - 19 else 0), se_acquire = (\<lambda>_. 0),
      se_cuda_workers = 0, se_cuda_devices = (False, 0), se_cufhepp = False, se_profile = False,
      se_cuda_cmux = None, se_tlwe_size = 1, se_trlwe_bytes = 8, se_trgsw_bytes = 64, se_mu = 2 ^ 29\<rparr>"

lemma sample_env_simps [simp]:
  "se_init sample_env c = 0" "se_insert sample_env n = (if n = 9 then - 19 else 0)" "se_acquire sample_env h = 0"
  "\<not> se_cufhepp sample_env" "\<not> se_profile sample_env" "se_cuda_cmux sample_env = None"
  "se_mu sample_env = 536870912"
  by (simp_all add: sample_env_def)

definition sample_memory :: "nat \<Rightarrow> (32 word, nat, bool) cell" where
  "sample_memory a =
     (if a = 0 then TLWECell [0] else if a = 1 then TLWECell (exact_sample True)
      else if a = 2 then TLWECell (exact_sample False) else if a = 10 then TRLWECell 4
      else if a = 11 then TRLWECell 5 else TRGSWCell True)"

abbreviation cpu_only :: "nat \<Rightarrow> arch \<times> int" where
  "cpu_only \<equiv> \<lambda>_. (STARPU_CPU, 1)"

definition sample_start :: "(32 word, nat, bool) backend" where
  "sample_start = initial_backend Map.empty sample_memory"

lemma sample_start_fields [simp]:
  "blocked_in sample_start = None" "currentEvalKey sample_start = None" "tasks sample_start = []"
  "callback_boxes sample_start = []" "captureActive sample_start = False" "host sample_start = sample_memory"
  "persistentHandles sample_start = Map.empty" "persistentVariableHandles sample_start = Map.empty"
  "starpuInitOnce sample_start = False" "starpuInitStatus sample_start = - 1" "starpuRunning sample_start = False"
  "attempts sample_start = 0" "handle_table sample_start = []" "states sample_start = []"
  "capturedTask sample_start = None"
  by (simp_all add: sample_start_def initial_backend_def)

lemma sample_start_reachable: "iy_reachable sample_machine sample_env cpu_only sample_start"
  unfolding sample_start_def by (rule iy_reachable.start)

lemma sample_start_mem: "mem sample_machine cpu_only sample_start = sample_memory"
  by (simp add: mem_def [abs_def])

lemma sample_start_typed: "typed tls sample_start"
  by (simp add: typed_def)

text \<open>The state after a synchronous NAND has been submitted, completed, and the client has woken up.\<close>

definition sample_called :: "(32 word, nat, bool) backend" where
  "sample_called = snd (iy_call sample_env (offload_call (TfBinary TfHomNAND 0 1 2 7)) sample_start)"

definition sample_completed :: "(32 word, nat, bool) backend" where
  "sample_completed = complete_task sample_machine cpu_only 0 sample_called"

lemmas call_unfold = iy_call_def runIyokanStarpuBinaryGate_def runIyokanStarpuNot_def runIyokanStarpuMux_def
  runIyokanStarpuCMUXFFT_def runIyokanStarpuMuxWoSE_def ensureStarpu_def ensureStarpuRuntime_def init_starpu_def
  submitAsync_def submitVariableAsync_def submitMuxWoSEAsync_def persistentHandleFor_def
  persistentVariableHandleFor_def register_handle_def insert_task_def deliver_def captureTask_def abind_def
  act_simps Let_def

lemma sample_called:
  "iy_call sample_env (offload_call (TfBinary TfHomNAND 0 1 2 7)) sample_start = (Inr None, sample_called)"
  by (simp add: sample_called_def call_unfold)

lemma sample_called_fields:
  "blocked_in sample_called = Some (WaitForTask 0)" "currentEvalKey sample_called = Some 7"
  "map ts_finished (states sample_called) = [False]" "map ts_output (states sample_called) = [0]"
  "map ts_error (states sample_called) = [0]" "length (tasks sample_called) = 1" "starpuRunning sample_called"
  "map hi_live (handle_table sample_called) = [True, True, True]"
  by (simp_all add: sample_called_def call_unfold)

lemma sample_can_complete: "can_complete sample_called 0"
  using sample_called_fields(3,6) by (auto simp: can_complete_def unfinished_def)

lemma sample_completes: "(completes sample_machine cpu_only)\<^sup>*\<^sup>* sample_called sample_completed"
  unfolding completes_def [abs_def] sample_completed_def using sample_can_complete by blast

lemma sample_completed_fields:
  "map ts_finished (states sample_completed) = [True]" "map ts_output (states sample_completed) = [0]"
  "map ts_error (states sample_completed) = [0]" "length (tasks sample_completed) = 1"
  "starpuRunning sample_completed" "map hi_live (handle_table sample_completed) = [True, True, True]"
  using sample_called_fields by (auto simp: sample_completed_def complete_task_def taskCompleted_def)

lemma singleton_nth: "map f xs = [y] \<Longrightarrow> f (xs ! 0) = y"
  by (cases xs) auto

lemma sample_idle: "\<forall>t. \<not> unfinished sample_completed t"
proof
  fix t
  show "\<not> unfinished sample_completed t"
    using singleton_nth [OF sample_completed_fields(1)] sample_completed_fields(4)
    by (cases t) (auto simp: unfinished_def)
qed

lemma sample_resumable: "resumable sample_completed (WaitForTask 0)"
  using sample_idle singleton_nth [OF sample_completed_fields(1)]
  by (simp add: resumable_def isFinished_def readable_def)

lemma sample_resume: "fst (resume sample_env (WaitForTask 0) sample_completed) = Inr ()"
proof -
  have "ts_output (states sample_completed ! 0) = 0" "ts_error (states sample_completed ! 0) = 0"
    using singleton_nth [OF sample_completed_fields(2)] singleton_nth [OF sample_completed_fields(3)] by simp_all
  moreover have "hi_live (handle_table sample_completed ! 0)"
    using sample_completed_fields(6) by (cases "handle_table sample_completed") auto
  ultimately show ?thesis
    using sample_completed_fields(5) by (simp add: resume_def acquire_read_def Let_def)
qed

section \<open>What a gate call delivers\<close>



text \<open>C4. Every gate call that returns refines the application of its gate. In any reachable state, with the
  key loaded or nothing pending, a call of one of the five gate functions submits one task, and the memory
  that the new state represents is the old one with the gate's codelet applied to the values at the call's
  addresses, whichever calls are still pending; in-place CMUX calls included. A captured call returns at once with the
  task as its completion token, a synchronous one waits for the task.\<close>

theorem gate_calls_refine:
  assumes "iy_reachable im env place s" and "typed tls s" and "typed_call tls c"
    and "gate_of env c = Some (cl, as)"
    and "\<forall>k. call_key c = Some k \<longrightarrow> currentEvalKey s = Some k \<or> callback_boxes s = []"
    and "iy_call env c s = (Inr x, s')"
  shows "mem im place s' = apply_gate im (currentEvalKey s') (place (length (tasks s))) cl as (mem im place s) \<and>
         typed tls s' \<and> host s' = host s \<and> length (tasks s') = Suc (length (tasks s)) \<and>
         (if captureActive s then capturedTask s' = Some (length (tasks s)) \<and> blocked_in s' = blocked_in s
          else blocked_in s' = Some (WaitForTask (length (tasks s))))"
proof -
  have inv: "backend_inv s" by (rule iy_reachable_inv [OF assms(1)])
  have "gate_called im place tls (call_key c) cl as s s'"
    using gate_call_called [OF inv assms(2,4,3) _ assms(6)] assms(5) pending_boxes [OF inv] by simp
  then show ?thesis by (simp add: gate_called_def Let_def)
qed

theorem gate_calls_refine_witness:
  "mem sample_machine cpu_only (snd (iy_call sample_env (CmuxGate 10 12 10 11) sample_start)) 10 = TRLWECell 4"
proof -
  have "iy_call sample_env (CmuxGate 10 12 10 11) sample_start =
      (Inr None, snd (iy_call sample_env (CmuxGate 10 12 10 11) sample_start))"
    by (simp add: call_unfold)
  from gate_calls_refine [OF sample_start_reachable sample_start_typed _ _ _ this, of "{}"] show ?thesis
    by (simp add: typed_call_def gate_of_def call_key_def sample_start_mem apply_gate_def sample_memory_def
        cmux_codelets_run(2) [OF sample_machine_ok])
qed

section \<open>Completion\<close>

lemma idle_seq_data:
  assumes "\<forall>t. \<not> unfinished s t"
  shows "seq_data im place s = data s"
proof -
  have "pending s = []" using assms by (auto simp: pending_def filter_empty_conv)
  then show ?thesis by (simp add: seq_data_def)
qed

lemma completions_seq_data:
  assumes "(completes im place)\<^sup>*\<^sup>* s s'" and "backend_inv s"
  shows "seq_data im place s' = seq_data im place s"
  using assms(1)
proof (induction rule: rtranclp_induct)
  case (step s1 s2)
  then have "backend_inv s1" using completions_outside assms(2) by blast
  with step show ?case by (auto simp: completes_def seq_data_complete)
qed simp


lemma sample_called_reachable: "iy_reachable sample_machine sample_env cpu_only sample_called"
  using iy_reachable.step [OF sample_start_reachable
      iy_step.call [of sample_start "offload_call (TfBinary TfHomNAND 0 1 2 7)"]]
  unfolding sample_called_def by simp


text \<open>C7. A blocked call can always return. In any reachable state with a blocked call StarPU can complete tasks
  until the call is ready; as long as it is not ready there is a task that may complete, and every
  completion frees one callback box, so no execution puts the call off for ever.\<close>

theorem blocked_calls_can_return:
  assumes "iy_reachable im env place s" and "blocked_in s = Some b"
  shows "(\<exists>s'. (completes im place)\<^sup>*\<^sup>* s s' \<and> blocked_in s' = Some b \<and> resumable s' b) \<and>
         (resumable s b \<or> (\<exists>s'. completes im place s s')) \<and>
         {s'. completes im place s s'} \<subseteq> {s'. length (callback_boxes s') < length (callback_boxes s)}"
proof -
  have inv: "backend_inv s" by (rule iy_reachable_inv [OF assms(1)])
  have ready: "resumable s' b" if "backend_inv s'" "blocked_in s' = Some b" "\<forall>t. \<not> unfinished s' t" for s'
  proof -
    have "isFinished t s'" if "t < length (tasks s')" for t
      using that \<open>\<forall>t. \<not> unfinished s' t\<close> by (simp add: unfinished_def isFinished_def)
    then show ?thesis
      using that by (cases b) (auto simp: resumable_def readable_def writable_def backend_inv_def refs_ok_def)
  qed
  obtain s' where s': "(completes im place)\<^sup>*\<^sup>* s s'" "\<forall>t. \<not> unfinished s' t"
    using completions_finish [OF inv] by blast
  then have "backend_inv s'" "blocked_in s' = Some b"
    using completions_outside [OF s'(1) inv] assms(2) by (auto simp: same_outside_def)
  then have "resumable s' b" "blocked_in s' = Some b" using ready s'(2) by auto
  moreover have "resumable s b \<or> (\<exists>s'. completes im place s s')"
    using ready [OF inv assms(2)] pending_can_complete unfolding completes_def by blast
  ultimately show ?thesis using s'(1) completes_fewer [OF _ inv] by blast
qed

theorem blocked_calls_can_return_witness:
  "\<exists>s'. (completes sample_machine cpu_only)\<^sup>*\<^sup>* sample_called s' \<and> blocked_in s' = Some (WaitForTask 0) \<and>
     resumable s' (WaitForTask 0)"
  using blocked_calls_can_return [OF sample_called_reachable sample_called_fields(1)] by simp


text \<open>A captured body of two dependent gates, and its tasks completed in order.\<close>

definition sample_body :: "api_call list" where
  "sample_body = [BinaryGate IyNAND 0 1 2 7, NotGate 3 0]"

definition sample_capture :: "(32 word, nat, bool) backend" where
  "sample_capture = snd (iy_call sample_env BeginCapture (snd (iy_call sample_env (Prepare 7) sample_start)))"

definition sample_captured :: "(32 word, nat, bool) backend" where
  "sample_captured = fold (\<lambda>c s. snd (iy_call sample_env c s)) sample_body sample_capture"

lemma call_reachable:
  "iy_reachable im env place s \<Longrightarrow> blocked_in s = None \<Longrightarrow> (\<And>t. c \<noteq> Synchronize t) \<Longrightarrow>
   iy_reachable im env place (snd (iy_call env c s))"
  by (rule iy_reachable.step [OF _ iy_step.call]) auto

lemma sample_capture_reachable: "iy_reachable sample_machine sample_env cpu_only sample_capture"
  unfolding sample_capture_def
  by (intro call_reachable sample_start_reachable)
    (simp_all add: call_unfold prepareIyokanStarpu_def)

lemma sample_captured_reachable: "iy_reachable sample_machine sample_env cpu_only sample_captured"
  unfolding sample_captured_def sample_body_def fold_simps
  by (intro call_reachable sample_capture_reachable)
    (simp_all add: sample_capture_def call_unfold prepareIyokanStarpu_def beginIyokanStarpuCapture_def)

lemma sample_captured_fields:
  "map it_handles (tasks sample_captured) =
     [[(0, STARPU_W), (1, STARPU_R), (2, STARPU_R)], [(3, STARPU_W), (0, STARPU_R)]]"
  "map ts_finished (states sample_captured) = [False, False]" "captureActive sample_captured"
  "capturedTask sample_captured = Some 1" "currentEvalKey sample_captured = Some 7"
  by (simp_all add: sample_captured_def sample_body_def sample_capture_def call_unfold prepareIyokanStarpu_def
      beginIyokanStarpuCapture_def)

lemma complete_reachable:
  "iy_reachable im env place s \<Longrightarrow> can_complete s t \<Longrightarrow> iy_reachable im env place (complete_task im place t s)"
  by (rule iy_reachable.step [OF _ iy_step.complete])

lemma pair_nth: "map f xs = [y, z] \<Longrightarrow> length xs = 2 \<and> f (xs ! 0) = y \<and> f (xs ! 1) = z"
  by (cases xs; cases "tl xs") auto

lemma sample_captured_complete:
  "can_complete sample_captured 0"
  "can_complete (complete_task sample_machine cpu_only 0 sample_captured) 1"
proof -
  have "length (tasks sample_captured) = 2" "length (states sample_captured) = 2"
    "\<not> ts_finished (states sample_captured ! 0)" "\<not> ts_finished (states sample_captured ! 1)"
    using pair_nth [OF sample_captured_fields(1)] pair_nth [OF sample_captured_fields(2)] by auto
  then show "can_complete sample_captured 0"
    "can_complete (complete_task sample_machine cpu_only 0 sample_captured) 1"
    by (simp_all add: can_complete_def unfinished_def complete_task_def taskCompleted_def)
qed


section \<open>Captured bodies\<close>

text \<open>The gates of a list of calls, applied one after the other; \<open>n\<close> numbers the tasks.\<close>

fun apply_gates ::
  "(nat, 'w::len word, 'r, 'g) iy_machine \<Rightarrow> 'w word iy_env \<Rightarrow> nat option \<Rightarrow> (nat \<Rightarrow> arch \<times> int) \<Rightarrow> nat \<Rightarrow>
   api_call list \<Rightarrow> (nat \<Rightarrow> ('w word, 'r, 'g) cell) \<Rightarrow> nat \<Rightarrow> ('w word, 'r, 'g) cell" where
  "apply_gates im env key place n [] m = m"
| "apply_gates im env key place n (c # cs) m = (case gate_of env c of
     None \<Rightarrow> m
   | Some (cl, as) \<Rightarrow> apply_gates im env key place (Suc n) cs (apply_gate im key (place n) cl as m))"

definition body_call :: "'w::len word iy_env \<Rightarrow> nat set \<Rightarrow> nat \<Rightarrow> api_call \<Rightarrow> bool" where
  "body_call env tls k c \<longleftrightarrow> gate_of env c \<noteq> None \<and> typed_call tls c \<and> (call_key c = None \<or> call_key c = Some k)"

lemma captured_body:
  assumes "backend_inv s" "typed tls s" "captureActive s" "blocked_in s = None" "currentEvalKey s = Some k"
    and "\<forall>c \<in> set cs. body_call env tls k c" and "amap (iy_call env) cs s = (Inr xs, s')"
  shows "mem im place s' = apply_gates im env (Some k) place (length (tasks s)) cs (mem im place s) \<and>
    captureActive s' \<and> blocked_in s' = None \<and> host s' = host s \<and>
    length (tasks s') = length (tasks s) + length cs \<and>
    capturedTask s' = (if cs = [] then capturedTask s else Some (length (tasks s') - 1))"
  using assms
proof (induction cs arbitrary: s xs)
  case Nil
  then show ?case by (simp add: act_simps)
next
  case (Cons c cs)
  from Cons.prems(7) obtain y s1 ys where first: "iy_call env c s = (Inr y, s1)"
    and rest: "amap (iy_call env) cs s1 = (Inr ys, s')"
    by (auto simp: act_simps elim!: abind_InrE)
  obtain cl as where g: "gate_of env c = Some (cl, as)" using Cons.prems(6) by (auto simp: body_call_def)
  have "gate_called im place tls (call_key c) cl as s s1"
    using Cons.prems by (intro gate_call_called [OF _ _ g _ _ first]) (auto simp: body_call_def)
  then have s1: "backend_inv s1" "typed tls s1" "captureActive s1" "blocked_in s1 = None" "currentEvalKey s1 = Some k"
    "host s1 = host s" "length (tasks s1) = Suc (length (tasks s))" "capturedTask s1 = Some (length (tasks s))"
    "mem im place s1 = apply_gate im (Some k) (place (length (tasks s))) cl as (mem im place s)"
    using Cons.prems by (auto simp: gate_called_def Let_def body_call_def)
  have "\<forall>c \<in> set cs. body_call env tls k c" using Cons.prems(6) by simp
  from Cons.IH [OF s1(1-5) this rest] show ?case
    using s1 g by (cases "cs = []") auto
qed

text \<open>C8. A captured body is a pipeline. While a capture is active, a sequence of gate calls that all return
  never blocks and leaves host memory alone; the state represents the memory after applying the gates one after
  another, each to the results of those before it, although none of them may have run yet; and ending the
  capture hands out the task of the last call as the token, and closes the capture.\<close>

theorem captured_body_refines:
  assumes "iy_reachable im env place s" and "typed tls s" and "captureActive s" and "blocked_in s = None"
    and "currentEvalKey s = Some k" and "cs \<noteq> []" and "\<forall>c \<in> set cs. body_call env tls k c"
    and "amap (iy_call env) cs s = (Inr xs, s')"
  shows "mem im place s' = apply_gates im env (Some k) place (length (tasks s)) cs (mem im place s) \<and>
    blocked_in s' = None \<and> host s' = host s \<and>
    iy_call env EndCapture s' =
      (Inr (Some (length (tasks s) + length cs - 1)), s'\<lparr>captureActive := False, capturedTask := None\<rparr>)"
  using captured_body [OF iy_reachable_inv [OF assms(1)] assms(2-5,7,8)] assms(6)
  by (simp add: iy_call_def endIyokanStarpuCapture_def)

lemma sample_body_runs: "amap (iy_call sample_env) sample_body sample_capture = (Inr [None, None], sample_captured)"
  by (simp add: sample_captured_def sample_body_def sample_capture_def call_unfold prepareIyokanStarpu_def
      beginIyokanStarpuCapture_def)

lemma sample_capture_fields:
  "captureActive sample_capture" "blocked_in sample_capture = None" "currentEvalKey sample_capture = Some 7"
  "tasks sample_capture = []" "typed UNIV sample_capture" "host sample_capture = sample_memory"
  by (simp_all add: sample_capture_def call_unfold prepareIyokanStarpu_def beginIyokanStarpuCapture_def typed_def)

theorem captured_body_refines_witness:
  "fst (iy_call sample_env EndCapture sample_captured) = Inr (Some 1)"
  using captured_body_refines [OF sample_capture_reachable sample_capture_fields(5,1-3) _ _ sample_body_runs]
  by (simp add: sample_body_def body_call_def gate_of_def typed_call_def call_key_def sample_capture_fields)

section \<open>Registries and callbacks\<close>

text \<open>C23. In every reachable state the handle of an object identifies it: a cached handle is live and was
  registered for its address; two addresses never share a handle, within a registry or across the two; and
  every live handle is cached, so that the shutdown, which walks the caches, unregisters every handle there is.\<close>

theorem handles_identify_objects:
  assumes "iy_reachable im env place s"
  shows "(\<forall>a h. persistentHandles s a = Some h \<or> persistentVariableHandles s a = Some h \<longrightarrow>
            h < length (handle_table s) \<and> hi_addr (handle_table s ! h) = a \<and> hi_live (handle_table s ! h)) \<and>
         inj_on (persistentHandles s) (dom (persistentHandles s)) \<and>
         inj_on (persistentVariableHandles s) (dom (persistentVariableHandles s)) \<and>
         ran (persistentHandles s) \<inter> ran (persistentVariableHandles s) = {} \<and>
         {h. h < length (handle_table s) \<and> hi_live (handle_table s ! h)} =
           ran (persistentHandles s) \<union> ran (persistentVariableHandles s)"
proof -
  have reg: "registry_ok s" using iy_reachable_inv [OF assms] by (simp add: backend_inv_def)
  have tl: "h < length (handle_table s) \<and> hi_addr (handle_table s ! h) = a \<and> hi_live (handle_table s ! h) \<and>
      (\<exists>n. hi_iface (handle_table s ! h) = VectorIface n)" if "persistentHandles s a = Some h" for a h
    using reg that by (simp add: registry_ok_def)
  have va: "h < length (handle_table s) \<and> hi_addr (handle_table s ! h) = a \<and> hi_live (handle_table s ! h) \<and>
      (\<exists>n. hi_iface (handle_table s ! h) = VariableIface n)" if "persistentVariableHandles s a = Some h" for a h
    using reg that by (simp add: registry_ok_def)
  have "inj_on (persistentHandles s) (dom (persistentHandles s))"
  proof (rule inj_onI)
    fix a b
    assume "a \<in> dom (persistentHandles s)" and "persistentHandles s a = persistentHandles s b"
    then obtain h where "persistentHandles s a = Some h" "persistentHandles s b = Some h" by (metis domD)
    then show "a = b" using tl [of a h] tl [of b h] by simp
  qed
  moreover have "inj_on (persistentVariableHandles s) (dom (persistentVariableHandles s))"
  proof (rule inj_onI)
    fix a b
    assume "a \<in> dom (persistentVariableHandles s)" and "persistentVariableHandles s a = persistentVariableHandles s b"
    then obtain h where "persistentVariableHandles s a = Some h" "persistentVariableHandles s b = Some h" by (metis domD)
    then show "a = b" using va [of a h] va [of b h] by simp
  qed
  moreover have "ran (persistentHandles s) \<inter> ran (persistentVariableHandles s) = {}"
  proof -
    have False if "persistentHandles s a = Some h" "persistentVariableHandles s b = Some h" for a b h
      using tl [OF that(1)] va [OF that(2)] by auto
    then show ?thesis unfolding ran_def by blast
  qed
  moreover have "{h. h < length (handle_table s) \<and> hi_live (handle_table s ! h)} =
      ran (persistentHandles s) \<union> ran (persistentVariableHandles s)"
    using reg tl va unfolding registry_ok_def ran_def by blast
  ultimately show ?thesis using tl va by blast
qed

theorem handles_identify_objects_witness:
  "inj_on (persistentHandles sample_captured) (dom (persistentHandles sample_captured))"
  using handles_identify_objects [OF sample_captured_reachable] by simp

text \<open>C24. No callback box leaks and none is freed twice: in every reachable state the allocated boxes are
  exactly those of the tasks that have not finished, each once.\<close>

theorem callback_boxes_balanced:
  assumes "iy_reachable im env place s"
  shows "callback_boxes s = filter (\<lambda>t. \<not> ts_finished (states s ! t)) [0..<length (tasks s)] \<and>
         distinct (callback_boxes s)"
proof -
  have "callback_boxes s = pending s" using pending_boxes iy_reachable_inv [OF assms] by metis
  then show ?thesis by (auto simp: pending_def unfinished_def intro!: filter_cong)
qed

theorem callback_boxes_balanced_witness: "distinct (callback_boxes sample_captured)"
  using callback_boxes_balanced [OF sample_captured_reachable] by simp

section \<open>Failures\<close>

text \<open>What a throwing operation leaves alone.\<close>

definition nothing_submitted :: "('a, 'r, 'g) backend \<Rightarrow> ('a, 'r, 'g) backend \<Rightarrow> bool" where
  "nothing_submitted s s' \<longleftrightarrow>
     tasks s' = tasks s \<and> states s' = states s \<and> callback_boxes s' = callback_boxes s \<and> host s' = host s \<and>
     captureActive s' = captureActive s \<and> capturedTask s' = capturedTask s \<and> blocked_in s' = blocked_in s"

lemma prepare_nothing:
  "act_spec (nothing_submitted s0) (ensureStarpuRuntime env) (\<lambda>_. nothing_submitted s0) (nothing_submitted s0)"
  "act_spec (nothing_submitted s0) (ensureStarpu env k) (\<lambda>_. nothing_submitted s0) (nothing_submitted s0)"
proof -
  show rt: "act_spec (nothing_submitted s0) (ensureStarpuRuntime env) (\<lambda>_. nothing_submitted s0) (nothing_submitted s0)"
    by (auto simp: act_spec_def ensureStarpuRuntime_def Let_def nothing_submitted_def init_starpu_def)
  show "act_spec (nothing_submitted s0) (ensureStarpu env k) (\<lambda>_. nothing_submitted s0) (nothing_submitted s0)"
    unfolding ensureStarpu_def
    by (rule act_spec_bind [OF rt])
      (auto simp: act_spec_def Let_def nothing_submitted_def initializeIyokanCufhepp_def split: option.split)
qed

lemma lookup_nothing:
  "act_spec (nothing_submitted s0) (persistentHandleFor env a) (\<lambda>_. nothing_submitted s0) (nothing_submitted s0)"
  "act_spec (nothing_submitted s0) (persistentVariableHandleFor n a) (\<lambda>_. nothing_submitted s0) (nothing_submitted s0)"
  by (auto simp: act_spec_def persistentHandleFor_def persistentVariableHandleFor_def register_handle_def abind_def
      act_simps Let_def nothing_submitted_def split: option.split)

lemma insert_failure:
  "act_spec (nothing_submitted s0) (insert_task env err cl hs) (\<lambda>_ _. True) (nothing_submitted s0)"
  by (auto simp: act_spec_def insert_task_def Let_def nothing_submitted_def)

lemma deliver_returns: "act_spec (\<lambda>_. True) (deliver t) (\<lambda>_ _. True) E"
  by (auto simp: act_spec_def deliver_def)

lemma submit_failures:
  "act_spec (nothing_submitted s0) (submitAsync env cl as) (\<lambda>_ _. True) (nothing_submitted s0)"
  "act_spec (nothing_submitted s0) (submitVariableAsync env cl ps ms) (\<lambda>_ _. True) (nothing_submitted s0)"
  "act_spec (nothing_submitted s0) (submitMuxWoSEAsync env out sel t f) (\<lambda>_ _. True) (nothing_submitted s0)"
proof -
  have pairs: "act_spec (nothing_submitted s0) ((\<lambda>(addr, bytes). persistentVariableHandleFor bytes addr) p)
      (\<lambda>_. nothing_submitted s0) (nothing_submitted s0)" for p
    by (cases p) (simp add: lookup_nothing)
  show "act_spec (nothing_submitted s0) (submitAsync env cl as) (\<lambda>_ _. True) (nothing_submitted s0)"
    unfolding submitAsync_def by (rule act_spec_bind [OF act_spec_amap [OF lookup_nothing(1)] insert_failure])
  show "act_spec (nothing_submitted s0) (submitVariableAsync env cl ps ms) (\<lambda>_ _. True) (nothing_submitted s0)"
    unfolding submitVariableAsync_def by (rule act_spec_bind [OF act_spec_amap [OF pairs] insert_failure])
  show "act_spec (nothing_submitted s0) (submitMuxWoSEAsync env out sel t f) (\<lambda>_ _. True) (nothing_submitted s0)"
    unfolding submitMuxWoSEAsync_def
    by (rule act_spec_bind [OF lookup_nothing(2) act_spec_bind [OF act_spec_amap [OF lookup_nothing(1)] insert_failure]])
qed

lemma gate_failures:
  assumes "gate_of env c \<noteq> None"
  shows "act_spec (nothing_submitted s0) (iy_call env c) (\<lambda>_ _. True) (nothing_submitted s0)"
proof -
  have ret: "act_spec (\<lambda>_. True) (areturn None) (\<lambda>_ _. True) (nothing_submitted s0)"
    by (rule act_spec_return) simp
  note gate = act_spec_bind [OF act_spec_bind [OF _ act_spec_bind [OF _ deliver_returns]] ret]
  show ?thesis
  proof (cases c)
    case (BinaryGate g out l r k)
    then show ?thesis
      unfolding iy_call_def runIyokanStarpuBinaryGate_def
      by simp (rule gate [OF prepare_nothing(2) submit_failures(1)])
  next
    case (NotGate out i)
    then show ?thesis
      unfolding iy_call_def runIyokanStarpuNot_def
      by simp (rule gate [OF prepare_nothing(1) submit_failures(1)])
  next
    case (MuxGate out sel t f k)
    then show ?thesis
      unfolding iy_call_def runIyokanStarpuMux_def
      by simp (rule gate [OF prepare_nothing(2) submit_failures(1)])
  next
    case (CmuxGate out sel t f)
    then show ?thesis
      unfolding iy_call_def runIyokanStarpuCMUXFFT_def Let_def
      by simp (intro conjI impI gate [OF prepare_nothing(1) submit_failures(2)])
  next
    case (MuxWoSEGate out sel t f k)
    then show ?thesis
      unfolding iy_call_def runIyokanStarpuMuxWoSE_def
      by simp (rule gate [OF prepare_nothing(2) submit_failures(3)])
  qed (use assms in \<open>simp_all add: gate_of_def\<close>)
qed

text \<open>C25. A gate call that throws submits nothing, whatever the reason (the runtime does not start, a second
  key, a submission that StarPU refuses): tasks, task states and callback boxes are as they were, so the box of
  a refused submission is freed; the capture, host memory and the client are untouched.\<close>

theorem failing_gate_calls_submit_nothing:
  assumes "gate_of env c \<noteq> None" and "iy_call env c s = (Inl e, s')"
  shows "tasks s' = tasks s \<and> states s' = states s \<and> callback_boxes s' = callback_boxes s \<and> host s' = host s \<and>
         captureActive s' = captureActive s \<and> capturedTask s' = capturedTask s \<and> blocked_in s' = blocked_in s"
  using act_spec_Inl [OF gate_failures [OF assms(1)] _ assms(2), of s] by (simp add: nothing_submitted_def)

theorem failing_gate_calls_submit_nothing_witness:
  "callback_boxes (snd (iy_call sample_env (BinaryGate IyAND 0 1 2 7) (sample_start\<lparr>attempts := 9\<rparr>))) = []"
proof -
  have "iy_call sample_env (BinaryGate IyAND 0 1 2 7) (sample_start\<lparr>attempts := 9\<rparr>) =
      (Inl SubmitFailed, snd (iy_call sample_env (BinaryGate IyAND 0 1 2 7) (sample_start\<lparr>attempts := 9\<rparr>)))"
    by (simp add: call_unfold)
  from failing_gate_calls_submit_nothing [OF _ this] show ?thesis by (simp add: gate_of_def)
qed

text \<open>C26. One process evaluates with one key: while the runtime is up with a key, preparing another key and
  every gate call that brings another key throws, and changes nothing at all.\<close>

theorem second_key_rejected:
  assumes "iy_reachable im env place s" and "starpuRunning s" and "currentEvalKey s = Some k" and "k' \<noteq> k"
    and "c = Prepare k' \<or> call_key c = Some k'"
  shows "iy_call env c s = (Inl TwoKeys, s)"
proof -
  have "starpuInitOnce s" "starpuInitStatus s = 0"
    using iy_reachable_inv [OF assms(1)] assms(2) by (auto simp: backend_inv_def life_ok_def)
  then have "ensureStarpu env k' s = (Inl TwoKeys, s)"
    using assms(3,4) by (simp add: ensureStarpu_def ensureStarpuRuntime_def abind_def)
  then show ?thesis
    using assms(5)
    by (cases c) (auto simp: call_key_def iy_call_def prepareIyokanStarpu_def runIyokanStarpuBinaryGate_def
        runIyokanStarpuMux_def runIyokanStarpuMuxWoSE_def abind_def)
qed

theorem second_key_rejected_witness:
  "iy_call sample_env (MuxWoSEGate 10 1 2 3 8) sample_called = (Inl TwoKeys, sample_called)"
  using second_key_rejected [OF sample_called_reachable sample_called_fields(7,2), of 8 "MuxWoSEGate 10 1 2 3 8"]
  by (simp add: call_key_def)

text \<open>Captures are not nested and not closed twice: beginning a capture inside one, and ending or
  synchronising without one, throw and change nothing; a capture that is begun outside one is active and empty, and
  ending it at once returns no token and restores the state.\<close>

lemma capture_protocol:
  "fst (iy_call env BeginCapture s) = (if captureActive s then Inl NestedCapture else Inr None) \<and>
   (captureActive s \<longrightarrow> snd (iy_call env BeginCapture s) = s) \<and>
   (\<not> captureActive s \<longrightarrow>
      iy_call env EndCapture s = (Inl EndedInactiveCapture, s) \<and>
      iy_call env SynchronizeCapture s = (Inl SynchronizedInactiveCapture, s) \<and>
      iy_call env EndCapture (snd (iy_call env BeginCapture s)) =
        (Inr None, s\<lparr>captureActive := False, capturedTask := None\<rparr>))"
  by (simp add: iy_call_def beginIyokanStarpuCapture_def endIyokanStarpuCapture_def
      synchronizeIyokanStarpuCapture_def abind_def act_simps)

section \<open>Shutdown\<close>

text \<open>C28. The shutdown waits for everything and forgets everything: it wakes up only when no task is pending and no
  callback box is left; then every handle is dead, both registries are empty, the key is gone and cuFHEpp is stopped. Host
  memory is not written: the memory that is represented is what the host holds, and values that were
  computed but not synchronised before are lost.\<close>

theorem shutdown_forgets:
  assumes "iy_reachable im env place s" and "blocked_in s = Some WaitForAll" and "resumable s WaitForAll"
    and "resume env WaitForAll s = (x, s')"
  shows "x = Inr () \<and> callback_boxes s' = [] \<and> persistentHandles s' = Map.empty \<and>
         persistentVariableHandles s' = Map.empty \<and> currentEvalKey s' = None \<and> \<not> starpuRunning s' \<and>
         (\<forall>i \<in> set (handle_table s'). \<not> hi_live i) \<and> (se_cufhepp env \<longrightarrow> \<not> cufheppInitialized s') \<and>
         host s' = host s \<and> mem im place s' = host s"
proof -
  have inv: "backend_inv s" by (rule iy_reachable_inv [OF assms(1)])
  have s': "x = Inr ()" "s' = finish_shutdown env (s\<lparr>blocked_in := None\<rparr>)"
    using assms(4) by (auto simp: resume_def)
  have inv': "backend_inv s'"
    using resume_inv [OF inv assms(2,3), of env] assms(4) by simp
  have fields: "persistentHandles s' = Map.empty" "persistentVariableHandles s' = Map.empty"
    "currentEvalKey s' = None" "\<not> starpuRunning s'" "host s' = host s" "se_cufhepp env \<longrightarrow> \<not> cufheppInitialized s'"
    by (simp_all add: s'(2) finish_shutdown_def unregister_all_def cleanupIyokanCufhepp_def Let_def)
  have "\<forall>t. \<not> unfinished s' t" using inv' fields(4) by (simp add: backend_inv_def life_ok_def)
  then have "callback_boxes s' = []" using inv' by (simp add: backend_inv_def boxes_ok_def)
  moreover have "\<not> hi_live i" if i: "i \<in> set (handle_table s')" for i
  proof -
    obtain h where "h < length (handle_table s')" "i = handle_table s' ! h" using i by (auto simp: in_set_conv_nth)
    then show ?thesis using inv' fields(1,2) by (auto simp: backend_inv_def registry_ok_def)
  qed
  moreover have "mem im place s' = host s" using fields by (simp add: mem_def fun_eq_iff)
  ultimately show ?thesis using s'(1) fields by simp
qed

definition sample_down :: "(32 word, nat, bool) backend" where
  "sample_down = snd (resume sample_env WaitForAll (snd (iy_call sample_env Shutdown sample_capture)))"

lemma sample_stopping:
  "iy_reachable sample_machine sample_env cpu_only (snd (iy_call sample_env Shutdown sample_capture))"
  "blocked_in (snd (iy_call sample_env Shutdown sample_capture)) = Some WaitForAll"
  "resumable (snd (iy_call sample_env Shutdown sample_capture)) WaitForAll"
proof -
  show "iy_reachable sample_machine sample_env cpu_only (snd (iy_call sample_env Shutdown sample_capture))"
    by (rule call_reachable [OF sample_capture_reachable sample_capture_fields(2)]) simp
  show "blocked_in (snd (iy_call sample_env Shutdown sample_capture)) = Some WaitForAll"
    "resumable (snd (iy_call sample_env Shutdown sample_capture)) WaitForAll"
    by (simp_all add: sample_capture_def call_unfold shutdownIyokanStarpu_def prepareIyokanStarpu_def
        beginIyokanStarpuCapture_def resumable_def unfinished_def)
qed

theorem shutdown_forgets_witness: "mem sample_machine cpu_only sample_down = sample_memory"
proof -
  have "host (snd (iy_call sample_env Shutdown sample_capture)) = sample_memory"
    using sample_capture_fields(6) by (simp add: iy_call_def shutdownIyokanStarpu_def abind_def act_simps)
  then show ?thesis
    using shutdown_forgets [OF sample_stopping, of "Inr ()" sample_down]
    by (simp add: sample_down_def resume_def)
qed

text \<open>States in which the runtime has been started once and is not up.\<close>

definition down :: "('a, 'r, 'g) backend \<Rightarrow> bool" where
  "down s \<longleftrightarrow> starpuInitOnce s \<and> \<not> starpuRunning s \<and> persistentHandles s = Map.empty \<and>
     persistentVariableHandles s = Map.empty"

lemma down_prepare:
  "act_spec down (ensureStarpuRuntime env) (\<lambda>_. down) down" "act_spec down (ensureStarpu env k) (\<lambda>_. down) down"
proof -
  show rt: "act_spec down (ensureStarpuRuntime env) (\<lambda>_. down) down"
    by (auto simp: act_spec_def down_def ensureStarpuRuntime_def Let_def)
  show "act_spec down (ensureStarpu env k) (\<lambda>_. down) down"
    unfolding ensureStarpu_def
    by (rule act_spec_bind [OF rt])
      (auto simp: act_spec_def Let_def down_def initializeIyokanCufhepp_def split: option.split)
qed

lemma down_lookup:
  "act_spec down (persistentHandleFor env a) (\<lambda>_ _. False) down"
  "act_spec down (persistentVariableHandleFor n a) (\<lambda>_ _. False) down"
  by (auto simp: act_spec_def down_def persistentHandleFor_def persistentVariableHandleFor_def register_handle_def
      abind_def)

lemma act_spec_False: "act_spec (\<lambda>_. False) m Q E"
  by (simp add: act_spec_def)

lemma down_bind: "act_spec down m (\<lambda>_ _. False) down \<Longrightarrow> act_spec down (abind m f) (\<lambda>_ _. False) down"
  by (rule act_spec_bind [OF _ act_spec_False])

lemma down_submit:
  "act_spec down (submitAsync env cl (a # as)) (\<lambda>_ _. False) down"
  "act_spec down (submitVariableAsync env cl ((b, n) # ps) ms) (\<lambda>_ _. False) down"
  "act_spec down (submitMuxWoSEAsync env out sel t f) (\<lambda>_ _. False) down"
  by (simp_all add: submitAsync_def submitVariableAsync_def submitMuxWoSEAsync_def down_bind down_lookup)

lemma down_gates:
  assumes "gate_of env c \<noteq> None"
  shows "act_spec down (iy_call env c) (\<lambda>_ _. False) down"
proof -
  note gate = act_spec_bind [OF act_spec_bind [OF _ act_spec_bind [OF _ act_spec_False]] act_spec_False]
  show ?thesis
  proof (cases c)
    case (BinaryGate g out l r k)
    then show ?thesis
      unfolding iy_call_def runIyokanStarpuBinaryGate_def by simp (rule gate [OF down_prepare(2) down_submit(1)])
  next
    case (NotGate out i)
    then show ?thesis
      unfolding iy_call_def runIyokanStarpuNot_def by simp (rule gate [OF down_prepare(1) down_submit(1)])
  next
    case (MuxGate out sel t f k)
    then show ?thesis
      unfolding iy_call_def runIyokanStarpuMux_def by simp (rule gate [OF down_prepare(2) down_submit(1)])
  next
    case (CmuxGate out sel t f)
    then show ?thesis
      unfolding iy_call_def runIyokanStarpuCMUXFFT_def Let_def
      by simp (intro conjI impI gate [OF down_prepare(1) down_submit(2)])
  next
    case (MuxWoSEGate out sel t f k)
    then show ?thesis
      unfolding iy_call_def runIyokanStarpuMuxWoSE_def by simp (rule gate [OF down_prepare(2) down_submit(3)])
  qed (use assms in \<open>simp_all add: gate_of_def\<close>)
qed

text \<open>C29. The runtime starts once. After a shutdown, or a start that failed, no gate call ever returns again: the
  one-time flag keeps StarPU down, so each of them throws or reaches StarPU while it is not running; and a new
  configuration is refused, unless the start failed with the status that also marks a process that has not started.\<close>

theorem no_gates_after_shutdown:
  assumes "iy_reachable im env place s" and "starpuInitOnce s" and "\<not> starpuRunning s" and "gate_of env c \<noteq> None"
  shows "(\<exists>e s'. iy_call env c s = (Inl e, s') \<and> \<not> starpuRunning s') \<and>
         (starpuInitStatus s \<noteq> - 1 \<longrightarrow> iy_call env (Configure n m) s = (Inl AlreadyConfigured, s))"
proof -
  have "down s"
    using iy_reachable_inv [OF assms(1)] assms(2,3) by (simp add: backend_inv_def life_ok_def down_def)
  moreover obtain r s' where r: "iy_call env c s = (r, s')" by (metis surj_pair)
  ultimately have "\<exists>e. r = Inl e \<and> down s'"
    using act_spec_Inr [OF down_gates [OF assms(4)]] act_spec_Inl [OF down_gates [OF assms(4)]]
    by (cases r) blast+
  with r show ?thesis by (auto simp: down_def iy_call_def configureIyokanStarpu_def abind_def)
qed

lemma sample_down_reachable: "iy_reachable sample_machine sample_env cpu_only sample_down"
  unfolding sample_down_def
  by (rule iy_reachable.step [OF sample_stopping(1) iy_step.wake [OF sample_stopping(2,3)]])

lemma sample_down_fields: "starpuInitOnce sample_down" "\<not> starpuRunning sample_down" "starpuInitStatus sample_down = 0"
  by (simp_all add: sample_down_def sample_capture_def call_unfold shutdownIyokanStarpu_def prepareIyokanStarpu_def
      beginIyokanStarpuCapture_def resume_def finish_shutdown_def unregister_all_def cleanupIyokanCufhepp_def)

theorem no_gates_after_shutdown_witness:
  "(\<exists>e s'. iy_call sample_env (NotGate 0 1) sample_down = (Inl e, s')) \<and>
   iy_call sample_env (Configure 4 0) sample_down = (Inl AlreadyConfigured, sample_down)"
  using no_gates_after_shutdown [OF sample_down_reachable sample_down_fields(1,2), of "NotGate 0 1" 4 0]
  by (auto simp: gate_of_def sample_down_fields)

section \<open>Host writes\<close>


text \<open>A client that overwrites an input of the finished NAND of the concrete run.\<close>

definition sample_marked :: "(32 word, nat, bool) backend" where
  "sample_marked = snd (iy_call sample_env (MarkTLWE 1)
     (sample_completed\<lparr>host := (host sample_completed)(1 := TLWECell [5])\<rparr>))"

lemma sample_completed_handles: "persistentHandles sample_completed 1 = Some 1"
  "persistentVariableHandles sample_completed = Map.empty"
  by (simp_all add: sample_completed_def sample_called_def call_unfold)


section \<open>Configuration\<close>

lemma shift_mod32: "(k - 2147483648) mod 4294967296 = (k + 2147483648) mod (4294967296::int)"
  using mod_add_self2 [of "k - 2147483648" 4294967296] by (simp add: add.commute)

lemma signed32:
  assumes k: "0 \<le> k" "k < 4294967296"
  shows "(k + 2147483648) mod 4294967296 - (2147483648::int) = (if k < 2147483648 then k else k - 4294967296)"
proof (cases "k < 2147483648")
  case False
  have "(k + 2147483648) mod 4294967296 = (k - 2147483648) mod 4294967296" by (rule shift_mod32 [symmetric])
  also have "\<dots> = k - 2147483648" using k False by (intro mod_pos_pos_trivial) linarith+
  finally show ?thesis unfolding if_not_P [OF False] by linarith
next
  case True
  have "(k + 2147483648) mod 4294967296 = k + 2147483648" using k True by (intro mod_pos_pos_trivial) linarith+
  then show ?thesis unfolding if_P [OF True] by linarith
qed

lemma sint_uint32: "sint (n::32 word) = (if unat n < 2 ^ 31 then int (unat n) else int (unat n) - 2 ^ 32)"
proof -
  have k: "0 \<le> uint n" "uint n < 4294967296" using uint_lt2p [of n] by simp_all
  have "sint n = (uint n + 2147483648) mod 4294967296 - 2147483648"
    by (simp only: sint_uint signed_take_bit_eq_take_bit_shift take_bit_eq_mod) simp
  also have "\<dots> = (if uint n < 2147483648 then uint n else uint n - 4294967296)" by (rule signed32 [OF k])
  finally have "sint n = (if int (unat n) < int (2 ^ 31) then int (unat n) else int (unat n) - 2 ^ 32)"
    by simp
  then show ?thesis by (simp only: of_nat_less_iff)
qed

lemma fold_setenv0: "v \<notin> set vs \<Longrightarrow> fold (\<lambda>v. setenv0 v x) vs e v = e v"
  by (induction vs arbitrary: e) (auto simp: setenv0_def)

lemma init_starpu_config:
  "used_config (init_starpu env s) =
     Some \<lparr>ncpus = (if 0 < configuredCpuWorkers s then Some (sint (configuredCpuWorkers s)) else None),
           ncuda = sint (configuredCudaDevices s),
           sched_policy_name = (if environ s ''STARPU_SCHED'' = None then Some ''dmdas'' else None)\<rparr>"
  "0 < configuredCudaDevices s \<Longrightarrow> environ (init_starpu env s) ''STARPU_NWORKER_PER_CUDA'' =
     (if environ s ''STARPU_NWORKER_PER_CUDA'' = None then Some ''32'' else environ s ''STARPU_NWORKER_PER_CUDA'')"
proof -
  let ?vs = "[''STARPU_PROFILING'', ''STARPU_WORKER_STATS'', ''STARPU_BUS_STATS'', ''STARPU_PROFILING_TASK'',
    ''STARPU_FXT_TRACE'']"
  have keep: "fold (\<lambda>v. setenv0 v ''1'') ?vs e ''STARPU_SCHED'' = e ''STARPU_SCHED''"
    "fold (\<lambda>v. setenv0 v ''1'') ?vs e ''STARPU_NWORKER_PER_CUDA'' = e ''STARPU_NWORKER_PER_CUDA''" for e
    by (rule fold_setenv0; simp)+
  have other: "setenv0 ''STARPU_NWORKER_PER_CUDA'' x e ''STARPU_SCHED'' = e ''STARPU_SCHED''" for x e
    by (simp add: setenv0_def)
  have own: "setenv0 v x e v = (if e v = None then Some x else e v)" for v x e by (simp add: setenv0_def)
  show "used_config (init_starpu env s) =
     Some \<lparr>ncpus = (if 0 < configuredCpuWorkers s then Some (sint (configuredCpuWorkers s)) else None),
           ncuda = sint (configuredCudaDevices s),
           sched_policy_name = (if environ s ''STARPU_SCHED'' = None then Some ''dmdas'' else None)\<rparr>"
    by (cases "se_profile env"; cases "0 < configuredCudaDevices s")
      (simp_all only: init_starpu_def Let_def keep other if_True if_False not_True_eq_False not_False_eq_True
        backend.simps backend.update_convs, simp_all)
  show "environ (init_starpu env s) ''STARPU_NWORKER_PER_CUDA'' =
     (if environ s ''STARPU_NWORKER_PER_CUDA'' = None then Some ''32'' else environ s ''STARPU_NWORKER_PER_CUDA'')"
    if "0 < configuredCudaDevices s"
  proof -
    have "environ (init_starpu env s) = setenv0 ''STARPU_NWORKER_PER_CUDA'' ''32''
        (if se_profile env then fold (\<lambda>v. setenv0 v ''1'') ?vs (environ s) else environ s)"
      unfolding init_starpu_def Let_def using that by simp
    then show ?thesis by (cases "se_profile env") (simp_all only: own keep if_True if_False)
  qed
qed

text \<open>C30. The configuration reaches StarPU, as far as its type allows. Before the first start the worker counts of
  the last configuration are the ones StarPU is started with: zero CPU workers leave StarPU's default, counts
  below 2 ^ 31 are passed on, and larger ones become negative in the conversion to int. The scheduler is dmdas
  unless the environment names one, and CUDA devices set 32 workers per device unless the environment has a value.\<close>

theorem configuration_reaches_starpu:
  assumes "starpuInitStatus s = - 1" and "\<not> starpuInitOnce s" and "\<not> starpuRunning s"
    and "s' = snd (iy_call env (Prepare k) (snd (iy_call env (Configure cpus cudas) s)))"
  shows "\<exists>conf. used_config s' = Some conf \<and>
    ncpus conf = (if cpus = 0 then None
                  else Some (if unat cpus < 2 ^ 31 then int (unat cpus) else int (unat cpus) - 2 ^ 32)) \<and>
    ncuda conf = (if unat cudas < 2 ^ 31 then int (unat cudas) else int (unat cudas) - 2 ^ 32) \<and>
    sched_policy_name conf = (if environ s ''STARPU_SCHED'' = None then Some ''dmdas'' else None) \<and>
    (0 < cudas \<longrightarrow> environ s' ''STARPU_NWORKER_PER_CUDA'' =
       (if environ s ''STARPU_NWORKER_PER_CUDA'' = None then Some ''32'' else environ s ''STARPU_NWORKER_PER_CUDA''))"
proof -
  have nz: "0 < n \<longleftrightarrow> n \<noteq> 0" for n :: uint by (simp add: word_gt_0)
  let ?s = "s\<lparr>configuredCpuWorkers := cpus, configuredCudaDevices := cudas\<rparr>"
  have "used_config s' = used_config (init_starpu env ?s) \<and> environ s' = environ (init_starpu env ?s)"
    using assms by (auto simp: iy_call_def configureIyokanStarpu_def prepareIyokanStarpu_def ensureStarpu_def
        ensureStarpuRuntime_def abind_def act_simps Let_def initializeIyokanCufhepp_def split: option.split)
  then show ?thesis
    using init_starpu_config [where env = env and s = ?s] by (simp add: nz sint_uint32)
qed

theorem configuration_reaches_starpu_witness:
  "\<exists>conf. used_config (snd (iy_call sample_env (Prepare 7) (snd (iy_call sample_env (Configure 64 2) sample_start)))) =
     Some conf \<and> ncpus conf = Some 64 \<and> ncuda conf = 2"
  using configuration_reaches_starpu [OF _ _ _ refl, of sample_start sample_env 7 64 2] by auto

end
