(* ===== verification/Iyokan_Concurrency.thy ===== *)
theory Iyokan_Concurrency
  imports Iyokan_Threads Iyokan_Guarantees
begin

text \<open>
  What the KVSP runtime (src/src/iyokan-starpu-codelets.cpp) promises to several threads that call it at
  once, on the step relation of \<open>Iyokan_Threads\<close>: every interleaving is a sequential execution in which
  a gate call takes effect when its task is submitted; every call returns; and the exceptions that a
  thread sees all have a cause of their own, none of them another thread's timing.
\<close>

section \<open>Every execution is a sequential one\<close>

text \<open>
  The specification: the values that the objects have once everything submitted has run, the contents of
  host memory, and the set of objects with a handle. A commit applies its gate at once; an
  acquisition moves a value between the two; nothing else counts.
\<close>

type_synonym ('a, 'r, 'g) abstract =
  "(nat \<Rightarrow> ('a, 'r, 'g) cell) \<times> (nat \<Rightarrow> ('a, 'r, 'g) cell) \<times> nat set"

definition abs_state ::
  "(nat, 'w::len word, 'r, 'g) iy_machine \<Rightarrow> (nat \<Rightarrow> arch \<times> int) \<Rightarrow> ('w word, 'r, 'g) par \<Rightarrow>
   ('w word, 'r, 'g) abstract" where
  "abs_state im place S = (mem im place (shared S), host (shared S), dom (handle_of (shared S)))"

fun spec_event ::
  "(nat, 'w::len word, 'r, 'g) iy_machine \<Rightarrow> 'w word iy_env \<Rightarrow> (nat \<Rightarrow> arch \<times> int) \<Rightarrow> nat \<Rightarrow>
   ('w word, 'r, 'g) event \<Rightarrow> ('w word, 'r, 'g) abstract \<Rightarrow> ('w word, 'r, 'g) abstract \<Rightarrow> bool" where
  "spec_event im env place k (Commit i c t) (m, h, d) (m', h', d') = (case gate_of env c of
      None \<Rightarrow> False
    | Some (cl, as) \<Rightarrow> set as \<subseteq> d \<and> m' = apply_gate im (Some k) (place t) cl as m \<and> h' = h \<and> d' = d)"
| "spec_event im env place k (Fetch i a) (m, h, d) (m', h', d') = (m' = m \<and> h' = h(a := m a) \<and> d' = d)"
| "spec_event im env place k (Publish i a) (m, h, d) (m', h', d') = (m' = m(a := h a) \<and> h' = h \<and> d' = d)"
| "spec_event im env place k (HostWrite i a v) (m, h, d) (m', h', d') =
     (m' = (if a \<in> d then m else m(a := v)) \<and> h' = h(a := v) \<and> d' = d)"
| "spec_event im env place k (Internal i) (m, h, d) (m', h', d') = (m' = m \<and> h' = h \<and> d \<subseteq> d')"
| "spec_event im env place k (Invoke i c) (m, h, d) (m', h', d') = (m' = m \<and> h' = h \<and> d' = d)"
| "spec_event im env place k (Return i c r) (m, h, d) (m', h', d') = (m' = m \<and> h' = h \<and> d' = d)"
| "spec_event im env place k (Completed t) (m, h, d) (m', h', d') = (m' = m \<and> h' = h \<and> d' = d)"

fun spec_run ::
  "(nat, 'w::len word, 'r, 'g) iy_machine \<Rightarrow> 'w word iy_env \<Rightarrow> (nat \<Rightarrow> arch \<times> int) \<Rightarrow> nat \<Rightarrow>
   ('w word, 'r, 'g) event list \<Rightarrow> ('w word, 'r, 'g) abstract \<Rightarrow> ('w word, 'r, 'g) abstract \<Rightarrow> bool" where
  "spec_run im env place k [] x y = (x = y)"
| "spec_run im env place k (e # es) x z = (\<exists>y. spec_event im env place k e x y \<and> spec_run im env place k es y z)"

lemma spec_run_snoc:
  "spec_run im env place k (es @ [e]) x z \<longleftrightarrow> (\<exists>y. spec_run im env place k es x y \<and> spec_event im env place k e y z)"
  by (induction es arbitrary: x) (auto simp del: split_paired_Ex)

text \<open>
  The phases of a thread: a gate call commits exactly once between its invocation and its return, or
  throws without having committed or after it; no other call commits.
\<close>

datatype phase = Idle | Calling api_call | Committed api_call

fun advance :: "'w::len word iy_env \<Rightarrow> nat \<Rightarrow> ('w word, 'r, 'g) event \<Rightarrow> phase \<Rightarrow> phase option" where
  "advance env i (Invoke j c) p = (if j \<noteq> i then Some p else if p = Idle then Some (Calling c) else None)"
| "advance env i (Commit j c t) p = (if j \<noteq> i then Some p else if p = Calling c then Some (Committed c) else None)"
| "advance env i (Return j c r) p =
     (if j \<noteq> i then Some p
      else if p = Committed c \<or> p = Calling c \<and> (gate_of env c = None \<or> (\<exists>e. r = Inl e)) then Some Idle else None)"
| "advance env i (HostWrite j a v) p = (if j = i \<and> p \<noteq> Idle then None else Some p)"
| "advance env i (Internal j) p = (if j = i \<and> p = Idle then None else Some p)"
| "advance env i (Fetch j a) p = (if j = i \<and> p = Idle then None else Some p)"
| "advance env i (Publish j a) p = (if j = i \<and> p = Idle then None else Some p)"
| "advance env i (Completed t) p = Some p"

fun advances :: "'w::len word iy_env \<Rightarrow> nat \<Rightarrow> ('w word, 'r, 'g) event list \<Rightarrow> phase \<Rightarrow> phase option" where
  "advances env i [] p = Some p"
| "advances env i (e # es) p = (case advance env i e p of None \<Rightarrow> None | Some p' \<Rightarrow> advances env i es p')"

lemma advances_snoc:
  "advances env i (es @ [e]) p = (case advances env i es p of None \<Rightarrow> None | Some q \<Rightarrow> advance env i e q)"
  by (induction es arbitrary: p) (auto split: option.split)

definition phase_of :: "'a thread \<Rightarrow> phase" where
  "phase_of th = (case th_call th of
      None \<Rightarrow> Idle
    | Some c \<Rightarrow> if lc_task (th_locals th) = None then Calling c else Committed c)"

text \<open>What a step has to keep and to show.\<close>

definition step_ok ::
  "(nat, 'w::len word, 'r, 'g) iy_machine \<Rightarrow> 'w word iy_env \<Rightarrow> (nat \<Rightarrow> arch \<times> int) \<Rightarrow> nat set \<Rightarrow> nat \<Rightarrow>
   ('w word, 'r, 'g) par \<Rightarrow> ('w word, 'r, 'g) event \<Rightarrow> ('w word, 'r, 'g) par \<Rightarrow> bool" where
  "step_ok im env place tls k S e S' \<longleftrightarrow>
     par_inv env tls k S' \<and> spec_event im env place k e (abs_state im place S) (abs_state im place S') \<and>
     (\<forall>i. advance env i e (phase_of (threads S i)) = Some (phase_of (threads S' i)))"

lemma par_invD:
  assumes "par_inv env tls k S"
  shows "up_with tls k (view i S)" and "frame_ok env tls (shared S) (threads S i)"
  using assms by (simp_all add: par_inv_def)

lemma invoke_ok:
  assumes inv: "par_inv env tls k S" and idle: "th_call (threads S i) = None" and c: "concurrent_call c" "typed_call tls c"
    "\<forall>t. c = Synchronize t \<longrightarrow> t < length (tasks (shared S))"
  shows "step_ok im env place tls k S (Invoke i c) (invoke env i c S)"
proof -
  have "th_blocked (threads S i) = None" using par_invD(2) [OF inv, of i] idle by (simp add: frame_ok_def)
  then have "frame_ok env tls (shared S) (threads (invoke env i c S) i)"
    using c by (simp add: frame_ok_def invoke_def locals_ok_def no_locals_def)
  moreover have "view j (invoke env i c S) = view j S" for j by (simp add: view_def invoke_def Let_def)
  moreover have "shared (invoke env i c S) = shared S" "\<And>j. j \<noteq> i \<Longrightarrow> threads (invoke env i c S) j = threads S j"
    by (simp_all add: invoke_def)
  ultimately have "par_inv env tls k (invoke env i c S)"
    using inv unfolding par_inv_def by metis
  then show ?thesis
    using idle by (auto simp: step_ok_def abs_state_def invoke_def phase_of_def no_locals_def)
qed

lemma quiet_abs:
  assumes "quiet im place tls k s s'"
  shows "mem im place s' = mem im place s" "host s' = host s" "dom (handle_of s) \<subseteq> dom (handle_of s')"
  using assms by (auto simp: quiet_def grows_def)

lemma micro_ok:
  assumes inv: "par_inv env tls k S" and code: "th_code (threads S i) \<noteq> []" and run: "micro_step env i S = (e, S')"
  shows "step_ok im env place tls k S e S'"
proof -
  let ?th = "threads S i" and ?s = "view i S"
  obtain m ms where ms: "th_code ?th = m # ms" using code by (cases "th_code ?th") auto
  obtain c where call: "th_call ?th = Some c"
    using par_invD(2) [OF inv, of i] ms by (cases "th_call ?th") (auto simp: frame_ok_def)
  with par_invD(2) [OF inv, of i] ms obtain pre where
    fr: "concurrent_call c" "typed_call tls c" "\<forall>t. c = Synchronize t \<longrightarrow> t < length (tasks ?s)"
      "th_blocked ?th = None" "th_error ?th = None" "micro_code env c = pre @ m # ms" "locals_ok ?s pre (th_locals ?th)"
    by (auto simp: frame_ok_def)
  obtain r s where exec: "exec_micro env m (th_locals ?th) ?s = (r, s)" by fastforce
  have "blocked_in ?s = None" using fr(4) by simp
  note eff = micro_step_effect [OF par_invD(1) [OF inv, of i] this fr(1-3,6,7) exec, of im place]
  have grow: "grows (shared S) s" using eff by (simp add: grows_def)
  have sync: "\<forall>t. c = Synchronize t \<longrightarrow> t < length (tasks s)" using fr(3) grow by (auto simp: grows_def)
  have other: "j \<noteq> i \<Longrightarrow> advance env j e p = Some p" for j p
    using run ms exec by (auto simp: micro_step_def Let_def split: sum.splits micro.splits option.splits)
  show ?thesis
  proof (cases r)
    case (Inl x)
    let ?t = "?th\<lparr>th_code := [], th_error := Some x\<rparr>"
    have S': "S' = store i s ?t S" and e: "e = Internal i" using run ms exec Inl by (simp_all add: micro_step_def)
    have q: "quiet im place tls k ?s s" using eff Inl by simp
    have "par_inv env tls k S'"
      unfolding S' using eff Inl fr sync call by (intro par_inv_store [OF inv _ grow]) (auto simp: frame_ok_def)
    then show ?thesis
      using quiet_abs [OF q] other call by (auto simp: step_ok_def abs_state_def S' e phase_of_def)
  next
    case (Inr l)
    let ?t = "?th\<lparr>th_code := ms, th_locals := l\<rparr>"
    have S': "S' = store i s ?t S" using run ms exec Inr by (simp add: micro_step_def Let_def)
    have "micro_code env c = (pre @ [m]) @ ms" using fr(6) by simp
    then have inv': "par_inv env tls k S'"
      unfolding S' using eff Inr fr sync call
      by (intro par_inv_store [OF inv _ grow]) (auto simp: frame_ok_def)
    show ?thesis
    proof (cases "is_insert m")
      case True
      then obtain err cl acc where m: "m = InsertOp err cl acc" by (cases m) auto
      from True eff Inr obtain cl as where com: "gate_of env c = Some (cl, as)" "set as \<subseteq> dom (handle_of ?s)"
        "handle_of s = handle_of ?s" "lc_task l = Some (length (tasks ?s))" "host s = host ?s"
        "mem im place s = apply_gate im (Some k) (place (length (tasks ?s))) cl as (mem im place ?s)"
        by (auto simp: micro_effect_def)
      have e: "e = Commit i c (length (tasks ?s))" using run ms exec Inr m call com(4) by (simp add: micro_step_def)
      have none: "lc_task (th_locals ?th) = None"
        using micro_code_insert [OF fr(6) [unfolded m]] fr(7) by (auto simp: locals_ok_def)
      show ?thesis
        using inv' com other call none by (auto simp: step_ok_def abs_state_def S' e phase_of_def)
    next
      case False
      then have q: "quiet im place tls k ?s s" using eff Inr by (simp add: micro_effect_def)
      have e: "e = Internal i" using run ms exec Inr False by (cases m) (simp_all add: micro_step_def)
      have "(lc_task l = None) = (lc_task (th_locals ?th) = None)"
        using eff Inr fr(7) False by (auto simp: locals_ok_def)
      then show ?thesis
        using inv' quiet_abs [OF q] other call by (auto simp: step_ok_def abs_state_def S' e phase_of_def)
    qed
  qed
qed

lemma wake_ok:
  assumes inv: "par_inv env tls k S" and blk: "th_blocked (threads S i) = Some b" and ready: "resumable (shared S) b"
    and run: "wake_step env i b S = (e, S')"
  shows "step_ok im env place tls k S e S'"
proof -
  let ?th = "threads S i" and ?s = "view i S"
  obtain c where call: "th_call ?th = Some c"
    using par_invD(2) [OF inv, of i] blk by (cases "th_call ?th") (auto simp: frame_ok_def)
  with par_invD(2) [OF inv, of i] blk have fr: "b \<noteq> WaitForAll" "th_code ?th = []" by (auto simp: frame_ok_def)
  obtain r s where res: "resume env b ?s = (r, s)" by fastforce
  have "blocked_in ?s = Some b" "resumable ?s b" using blk ready by simp_all
  note eff = wake_effect [OF par_invD(1) [OF inv, of i] this(1) fr(1) this(2) res, of im place]
  have grow: "grows (shared S) s" using eff by (simp add: grows_def)
  have old: "frame_ok env tls s ?th" by (rule frame_ok_grows [OF par_invD(2) [OF inv] grow])
  show ?thesis
  proof (cases r)
    case (Inl x)
    have S': "S' = store i s (?th\<lparr>th_error := Some x\<rparr>) S" and e: "e = Internal i"
      using run res Inl by (simp_all add: wake_step_def)
    have "par_inv env tls k S'"
      unfolding S' using eff old call fr by (intro par_inv_store [OF inv _ grow]) (auto simp: frame_ok_def)
    then show ?thesis
      using eff Inl call by (auto simp: step_ok_def abs_state_def S' e phase_of_def acquire_effect_def Let_def)
  next
    case (Inr x)
    have S': "S' = store i s ?th S" and e: "e = wake_event i b (shared S)"
      using run res Inr by (simp_all add: wake_step_def)
    have "par_inv env tls k S'"
      unfolding S' using eff old call fr by (intro par_inv_store [OF inv _ grow]) (auto simp: frame_ok_def)
    then show ?thesis
      using eff Inr call fr(1)
      by (cases b) (auto simp: step_ok_def abs_state_def S' e phase_of_def acquire_effect_def Let_def wake_event_def)
  qed
qed

lemma return_ok:
  assumes inv: "par_inv env tls k S" and th: "th_call (threads S i) = Some c" "th_code (threads S i) = []"
    "th_blocked (threads S i) = None"
  shows "step_ok im env place tls k S (Return i c (return_value (threads S i))) (leave i S)"
proof -
  have "view j (leave i S) = view j S" for j by (simp add: view_def leave_def Let_def)
  moreover have "frame_ok env tls (shared S) (threads (leave i S) i)"
    using th by (simp add: frame_ok_def leave_def)
  moreover have "shared (leave i S) = shared S" "\<And>j. j \<noteq> i \<Longrightarrow> threads (leave i S) j = threads S j"
    by (simp_all add: leave_def)
  ultimately have inv': "par_inv env tls k (leave i S)" using inv unfolding par_inv_def by metis
  have "lc_task (th_locals (threads S i)) \<noteq> None \<or> gate_of env c = None" if "th_error (threads S i) = None"
  proof -
    from par_invD(2) [OF inv, of i] th that have "locals_ok (shared S) (micro_code env c) (th_locals (threads S i))"
      by (auto simp: frame_ok_def)
    moreover have "(\<exists>m \<in> set (micro_code env c). is_insert m) \<or> gate_of env c = None"
      by (cases c) (auto simp: micro_code_def submit_code_def Let_def gate_of_def)
    ultimately show ?thesis by (simp add: locals_ok_def)
  qed
  then show ?thesis
    using inv' th by (auto simp: step_ok_def abs_state_def leave_def phase_of_def return_value_def split: option.splits)
qed

lemma host_write_mem:
  "mem im place (s\<lparr>host := (host s)(a := v)\<rparr>) =
     (if a \<in> dom (handle_of s) then mem im place s else (mem im place s)(a := v))" (is "mem im place ?s = _")
proof -
  have seq: "seq_data im place ?s = seq_data im place s" by (rule seq_data_cong) simp_all
  have hof: "handle_of ?s = handle_of s" by (rule handle_of_cong) simp_all
  show ?thesis by (rule ext) (auto simp: mem_handle_of seq hof split: option.split)
qed

lemma frame_ok_cong:
  assumes "tasks s' = tasks s" and "handle_of s' = handle_of s"
  shows "frame_ok env tls s' th = frame_ok env tls s th"
proof -
  have "locals_ok s' pre l = locals_ok s pre l" for pre l by (simp add: locals_ok_def assms)
  then show ?thesis by (simp add: frame_ok_def assms(1) cong: option.case_cong)
qed

lemma write_ok:
  assumes inv: "par_inv env tls k S" and idle: "th_call (threads S i) = None"
  shows "step_ok im env place tls k S (HostWrite i a v) (host_write a v S)"
proof -
  have view: "view j (host_write a v S) = (view j S)\<lparr>host := (host (view j S))(a := v)\<rparr>" for j
    by (simp add: view_def host_write_def Let_def)
  have shared: "shared (host_write a v S) = (shared S)\<lparr>host := (host (shared S))(a := v)\<rparr>"
    "threads (host_write a v S) = threads S" by (simp_all add: host_write_def)
  have hof: "handle_of (shared (host_write a v S)) = handle_of (shared S)" by (rule handle_of_cong) (simp_all add: shared)
  have "up_with tls k (view j (host_write a v S))" for j
    using par_invD(1) [OF inv, of j] by (simp add: view up_with_def typed_def update_memory_inv(2))
  then have "par_inv env tls k (host_write a v S)"
    using par_invD(2) [OF inv] frame_ok_cong [OF _ hof] by (simp add: par_inv_def shared)
  then show ?thesis
    using idle by (auto simp: step_ok_def abs_state_def shared hof [unfolded shared] host_write_mem phase_of_def)
qed

lemma complete_ok:
  assumes inv: "par_inv env tls k S" and t: "can_complete (shared S) t"
  shows "step_ok im env place tls k S (Completed t) (S\<lparr>shared := complete_task im place t (shared S)\<rparr>)"
    (is "step_ok _ _ _ _ _ _ _ ?S")
proof -
  have view: "view j ?S = complete_task im place t (view j S)" for j
    by (simp add: view_def Let_def complete_task_def taskCompleted_def)
  have hof: "handle_of (complete_task im place t (shared S)) = handle_of (shared S)" by (rule handle_of_cong) simp_all
  have up: "up_with tls k (view j ?S)" for j
    using par_invD(1) [OF inv, of j] complete_task_inv [of "view j S" t im place] t
    by (simp add: view up_with_def typed_def)
  moreover have "frame_ok env tls (shared ?S) th = frame_ok env tls (shared S) th" for th
    using frame_ok_cong [OF _ hof] by simp
  ultimately have "par_inv env tls k ?S" using par_invD(2) [OF inv] by (simp add: par_inv_def)
  moreover have "mem im place (view 0 ?S) = mem im place (view 0 S)"
    unfolding view using par_invD(1) [OF inv, of 0] t by (intro mem_complete) (simp_all add: up_with_def)
  ultimately show ?thesis by (simp add: step_ok_def abs_state_def hof)
qed

lemma par_step_ok: "par_step im env place tls S e S' \<Longrightarrow> par_inv env tls k S \<Longrightarrow> step_ok im env place tls k S e S'"
  by (induction rule: par_step.induct) (simp_all add: invoke_ok micro_ok wake_ok return_ok write_ok complete_ok)

lemma prepared_start_inv:
  assumes "prepared_start im env place tls k S"
  shows "par_inv env tls k S"
proof -
  have s: "backend_inv (shared S)" "typed tls (shared S)" "starpuRunning (shared S)" "currentEvalKey (shared S) = Some k"
    and th: "threads S = (\<lambda>_. idle_thread)"
    using assms iy_reachable_inv by (auto simp: prepared_start_def)
  have "backend_inv (view i S)" for i
    unfolding view_def Let_def by (rule update_client_inv [OF s(1)]) (simp_all add: th idle_thread_def)
  then show ?thesis
    using s by (simp add: par_inv_def up_with_def) (simp add: th idle_thread_def frame_ok_def)
qed

lemma par_run_ok:
  assumes "par_run im env place tls S es S'" and "par_inv env tls k S"
  shows "par_inv env tls k S' \<and> spec_run im env place k es (abs_state im place S) (abs_state im place S') \<and>
    (\<forall>i. advances env i es (phase_of (threads S i)) = Some (phase_of (threads S' i)))"
  using assms
proof (induction rule: par_run.induct)
  case (par_snoc S es S' e S'')
  then have "step_ok im env place tls k S' e S''" by (simp add: par_step_ok)
  with par_snoc show ?case
    by (auto simp: step_ok_def spec_run_snoc advances_snoc simp del: split_paired_Ex)
qed simp

section \<open>Every call returns\<close>

text \<open>A step that neither starts a call nor is the client's own: these can only go on for so long.\<close>

fun arrival :: "('a, 'r, 'g) event \<Rightarrow> bool" where
  "arrival (Invoke i c) = True"
| "arrival (HostWrite i a v) = True"
| "arrival e = False"

definition own_step ::
  "(nat, 'w::len word, 'r, 'g) iy_machine \<Rightarrow> 'w word iy_env \<Rightarrow> (nat \<Rightarrow> arch \<times> int) \<Rightarrow> nat set \<Rightarrow>
   ('w word, 'r, 'g) par \<Rightarrow> ('w word, 'r, 'g) par \<Rightarrow> bool" where
  "own_step im env place tls S S' \<longleftrightarrow> (\<exists>e. \<not> arrival e \<and> par_step im env place tls S e S')"

definition thread_work :: "'a thread \<Rightarrow> nat" where
  "thread_work th = 4 * length (th_code th) + (if th_blocked th = None then 0 else 2) +
     (if th_call th = None then 0 else 1)"

definition work :: "nat \<Rightarrow> ('a, 'r, 'g) par \<Rightarrow> nat" where
  "work n S = (\<Sum>i<n. thread_work (threads S i)) + length (callback_boxes (shared S))"

lemma work_thread_less:
  fixes S S' :: "('a, 'r, 'g) par"
  assumes "i < n" and "\<And>j. j \<noteq> i \<Longrightarrow> threads S' j = threads S j"
    and "thread_work (threads S' i) + length (callback_boxes (shared S')) <
      thread_work (threads S i) + length (callback_boxes (shared S))"
  shows "work n S' < work n S"
proof -
  have split: "(\<Sum>j<n. thread_work (threads T j)) = thread_work (threads T i) + (\<Sum>j\<in>{..<n} - {i}. thread_work (threads T j))"
    for T :: "('a, 'r, 'g) par"
    using assms(1) by (intro sum.remove) auto
  have "(\<Sum>j\<in>{..<n} - {i}. thread_work (threads S' j)) = (\<Sum>j\<in>{..<n} - {i}. thread_work (threads S j))"
    using assms(2) by (intro sum.cong) auto
  then show ?thesis using assms(3) split [of S] split [of S'] by (simp add: work_def)
qed

definition threads_below :: "nat \<Rightarrow> ('a, 'r, 'g) par \<Rightarrow> bool" where
  "threads_below n S \<longleftrightarrow> (\<forall>i \<ge> n. th_call (threads S i) = None)"

lemma micro_less:
  assumes inv: "par_inv env tls k S" and code: "th_code (threads S i) \<noteq> []" and blk: "th_blocked (threads S i) = None"
    and run: "micro_step env i S = (e, S')"
  shows "th_call (threads S i) \<noteq> None \<and> (\<forall>j. th_call (threads S' j) = th_call (threads S j)) \<and>
    (\<forall>n > i. work n S' < work n S)"
proof -
  let ?th = "threads S i" and ?s = "view i S"
  obtain m ms where ms: "th_code ?th = m # ms" using code by (cases "th_code ?th") auto
  obtain c where call: "th_call ?th = Some c"
    using par_invD(2) [OF inv, of i] ms by (cases "th_call ?th") (auto simp: frame_ok_def)
  with par_invD(2) [OF inv, of i] ms obtain pre where
    fr: "concurrent_call c" "typed_call tls c" "\<forall>t. c = Synchronize t \<longrightarrow> t < length (tasks ?s)"
      "micro_code env c = pre @ m # ms" "locals_ok ?s pre (th_locals ?th)"
    by (auto simp: frame_ok_def)
  obtain r s where exec: "exec_micro env m (th_locals ?th) ?s = (r, s)" by fastforce
  have "blocked_in ?s = None" using blk by simp
  note eff = micro_step_effect [OF par_invD(1) [OF inv, of i] this fr(1-3,4,5) exec]
  have boxes: "length (callback_boxes s) \<le> Suc (length (callback_boxes (shared S)))"
    using eff [of undefined undefined] by (auto simp: micro_effect_def quiet_def split: sum.splits if_split_asm)
  have S': "S' = store i s (case r of Inl x \<Rightarrow> ?th\<lparr>th_code := [], th_error := Some x\<rparr>
      | Inr l \<Rightarrow> ?th\<lparr>th_code := ms, th_locals := l\<rparr>) S"
    using run ms exec by (simp add: micro_step_def Let_def split: sum.splits)
  have "work n S' < work n S" if "i < n" for n
    by (rule work_thread_less [OF that])
      (use boxes ms blk call in \<open>auto simp: S' thread_work_def split: sum.split\<close>)
  then show ?thesis using call by (auto simp: S' split: sum.split)
qed

lemma wake_less:
  assumes inv: "par_inv env tls k S" and blk: "th_blocked (threads S i) = Some b" and ready: "resumable (shared S) b"
    and run: "wake_step env i b S = (e, S')"
  shows "th_call (threads S i) \<noteq> None \<and> (\<forall>j. th_call (threads S' j) = th_call (threads S j)) \<and>
    (\<forall>n > i. work n S' < work n S)"
proof -
  let ?th = "threads S i" and ?s = "view i S"
  have call: "th_call ?th \<noteq> None" "b \<noteq> WaitForAll"
    using par_invD(2) [OF inv, of i] blk by (auto simp: frame_ok_def split: option.splits)
  obtain r s where res: "resume env b ?s = (r, s)" by fastforce
  have "blocked_in ?s = Some b" "resumable ?s b" using blk ready by simp_all
  note eff = wake_effect [OF par_invD(1) [OF inv, of i] this(1) call(2) this(2) res]
  have S': "S' = store i s (case r of Inl x \<Rightarrow> ?th\<lparr>th_error := Some x\<rparr> | Inr _ \<Rightarrow> ?th) S"
    using run res by (simp add: wake_step_def split: sum.splits)
  have "work n S' < work n S" if "i < n" for n
    by (rule work_thread_less [OF that]) (use eff blk in \<open>auto simp: S' thread_work_def split: sum.split\<close>)
  then show ?thesis using call(1) by (auto simp: S' split: sum.split)
qed

lemma own_step_less:
  assumes "own_step im env place tls S S'" and inv: "par_inv env tls k S" and n: "threads_below n S"
  shows "par_inv env tls k S' \<and> threads_below n S' \<and> work n S' < work n S"
proof -
  from assms(1) obtain e where e: "\<not> arrival e" and step: "par_step im env place tls S e S'" by (auto simp: own_step_def)
  have "par_inv env tls k S'" using par_step_ok [OF step inv] by (simp add: step_ok_def)
  moreover from step e have "threads_below n S' \<and> work n S' < work n S"
  proof (cases rule: par_step.cases)
    case (par_micro i)
    from micro_less [OF inv this] n show ?thesis
      by (auto simp: threads_below_def not_le [symmetric])
  next
    case (par_wake i b)
    from wake_less [OF inv this] n show ?thesis
      by (auto simp: threads_below_def not_le [symmetric])
  next
    case (par_return i c)
    with n have "i < n" by (auto simp: threads_below_def not_le [symmetric])
    then have "work n S' < work n S"
      by (rule work_thread_less) (use par_return in \<open>auto simp: leave_def thread_work_def\<close>)
    then show ?thesis using n par_return by (auto simp: threads_below_def leave_def)
  next
    case (par_complete t)
    have "completes im place (view 0 S) (complete_task im place t (view 0 S))"
      using par_complete by (auto simp: completes_def)
    from completes_fewer [OF this] have "length (callback_boxes (complete_task im place t (shared S))) <
        length (callback_boxes (shared S))"
      using par_invD(1) [OF inv, of 0] by (simp add: up_with_def complete_task_def taskCompleted_def)
    then show ?thesis using n par_complete by (simp add: threads_below_def work_def)
  qed auto
  ultimately show ?thesis by simp
qed

text \<open>Nothing is ever stuck: while a call is running or a task is pending, something can be done.\<close>

lemma own_step_enabled:
  assumes inv: "par_inv env tls k S" and busy: "th_call (threads S i) \<noteq> None \<or> callback_boxes (shared S) \<noteq> []"
  shows "\<exists>S'. own_step im env place tls S S'"
proof (cases "\<exists>t. unfinished (shared S) t")
  case True
  then obtain t where "can_complete (shared S) t" using pending_can_complete by blast
  from par_step.par_complete [OF this] show ?thesis unfolding own_step_def by (meson arrival.simps)
next
  case False
  have s: "backend_inv (view i S)" using par_invD(1) [OF inv] by (simp add: up_with_def)
  have "callback_boxes (shared S) = []"
    using s False pending_boxes [OF s] by (simp add: pending_def filter_empty_conv)
  with busy obtain c where c: "th_call (threads S i) = Some c" by auto
  show ?thesis
  proof (cases "th_blocked (threads S i)")
    case None
    show ?thesis
    proof (cases "th_code (threads S i) = []")
      case True
      from par_step.par_return [OF c this None] show ?thesis unfolding own_step_def by (meson arrival.simps)
    next
      case code: False
      obtain e S' where step: "micro_step env i S = (e, S')" by fastforce
      have "\<not> arrival e"
        using step code by (auto simp: micro_step_def Let_def split: list.splits sum.splits prod.splits micro.splits option.splits)
      with par_step.par_micro [OF code None step] show ?thesis unfolding own_step_def by blast
    qed
  next
    case (Some b)
    have "blocked_ok (length (tasks (shared S))) (length (handle_table (shared S))) (starpuRunning (shared S)) b"
      using s Some by (simp add: backend_inv_def refs_ok_def)
    then have "resumable (shared S) b"
      using False by (cases b) (auto simp: resumable_def isFinished_def readable_def writable_def unfinished_def)
    moreover obtain e S' where step: "wake_step env i b S = (e, S')" by fastforce
    moreover have "\<not> arrival e"
      using step by (cases b) (auto simp: wake_step_def wake_event_def split: sum.splits prod.splits)
    ultimately show ?thesis using par_step.par_wake [OF Some] unfolding own_step_def by blast
  qed
qed

lemma own_steps_bounded:
  assumes "(own_step im env place tls ^^ m) S S'" and "par_inv env tls k S" and "threads_below n S"
  shows "m + work n S' \<le> work n S \<and> par_inv env tls k S' \<and> threads_below n S'"
  using assms
proof (induction m arbitrary: S')
  case (Suc m)
  then obtain T where "(own_step im env place tls ^^ m) S T" and step: "own_step im env place tls T S'" by auto
  with Suc have "m + work n T \<le> work n S" "par_inv env tls k T" "threads_below n T" by auto
  with own_step_less [OF step] show ?case by fastforce
qed simp

section \<open>Every exception has a cause\<close>

text \<open>
  While the runtime is up all its handles are live, and an error recorded in a task comes from a failed
  acquisition.
\<close>

definition healthy :: "'a iy_env \<Rightarrow> ('a, 'r, 'g) backend \<Rightarrow> bool" where
  "healthy env s \<longleftrightarrow>
     (starpuRunning s \<longrightarrow> starpuInitOnce s \<and> (\<forall>x \<in> set (handle_table s). hi_live x)) \<and>
     (\<not> starpuInitOnce s \<longrightarrow> handle_table s = []) \<and>
     (\<forall>x \<in> set (states s). ts_error x \<noteq> 0 \<longrightarrow> (\<exists>h. se_acquire env h \<noteq> 0))"

abbreviation keeps_healthy :: "'a iy_env \<Rightarrow> ('a, 'r, 'g, 'x) iy_act \<Rightarrow> bool" where
  "keeps_healthy env m \<equiv> act_spec (healthy env) m (\<lambda>_. healthy env) (healthy env)"

lemma healthy_bind:
  "keeps_healthy env m \<Longrightarrow> (\<And>x. keeps_healthy env (f x)) \<Longrightarrow> keeps_healthy env (abind m f)"
  by (rule act_spec_bind)

lemma healthy_return: "keeps_healthy env (areturn x)"
  by (rule act_spec_return)

lemma healthy_steps:
  "keeps_healthy env (ensureStarpuRuntime env)" "keeps_healthy env (bind_key env k)"
  "keeps_healthy env (persistentHandleFor env a)" "keeps_healthy env (persistentVariableHandleFor bytes a)"
  "keeps_healthy env (insert_task env err cl hs)" "keeps_healthy env (deliver t)"
proof -
  show "keeps_healthy env (ensureStarpuRuntime env)"
    by (auto simp: act_spec_def ensureStarpuRuntime_def Let_def healthy_def init_starpu_def)
  show "keeps_healthy env (bind_key env k)"
    by (auto simp: act_spec_def bind_key_def Let_def healthy_def initializeIyokanCufhepp_def split: option.split)
  show "keeps_healthy env (persistentHandleFor env a)"
    by (auto simp: act_spec_def persistentHandleFor_def register_handle_def abind_def act_simps Let_def healthy_def
        split: option.split)
  show "keeps_healthy env (persistentVariableHandleFor bytes a)"
    by (auto simp: act_spec_def persistentVariableHandleFor_def register_handle_def abind_def act_simps Let_def
        healthy_def split: option.split)
  show "keeps_healthy env (insert_task env err cl hs)"
    by (auto simp: act_spec_def insert_task_def Let_def healthy_def)
  show "keeps_healthy env (deliver t)"
    by (auto simp: act_spec_def deliver_def captureTask_def healthy_def)
qed

lemma healthy_other_calls:
  "keeps_healthy env (configureIyokanStarpu c e)" "keeps_healthy env shutdownIyokanStarpu"
  "keeps_healthy env beginIyokanStarpuCapture" "keeps_healthy env endIyokanStarpuCapture"
  "keeps_healthy env synchronizeIyokanStarpuCapture" "keeps_healthy env (markIyokanTLWEHostWrite a)"
  "keeps_healthy env (markVariableHostWrite a)" "keeps_healthy env (synchronizeOutput t)"
  by (auto simp: act_spec_def healthy_def configureIyokanStarpu_def shutdownIyokanStarpu_def
      beginIyokanStarpuCapture_def endIyokanStarpuCapture_def synchronizeIyokanStarpuCapture_def
      markIyokanTLWEHostWrite_def markVariableHostWrite_def synchronizeOutput_def split: option.split)

lemma healthy_micro:
  assumes "\<And>c. m = PlainOp c \<Longrightarrow> keeps_healthy env (iy_call env c :: ('w::len word, 'r, 'g, nat option) iy_act)"
  shows "keeps_healthy env (exec_micro env m l :: ('w word, 'r, 'g, call_locals) iy_act)"
  using assms by (cases m) (auto intro!: healthy_bind healthy_return healthy_steps split: option.split)

lemma healthy_call: "keeps_healthy env (iy_call env c :: ('w::len word, 'r, 'g, nat option) iy_act)"
proof (cases "micro_code env c = [PlainOp c]")
  case True
  then show ?thesis
    by (cases c) (auto simp: iy_call_def micro_code_def submit_code_def Let_def prepareIyokanStarpu_def
        intro!: healthy_bind healthy_return healthy_other_calls)
next
  case False
  have "keeps_healthy env (run_micros env ms l :: ('w word, 'r, 'g, call_locals) iy_act)" if "\<forall>c. PlainOp c \<notin> set ms" for ms l
    using that by (induction ms arbitrary: l) (auto intro!: healthy_bind healthy_return healthy_micro)
  moreover have "\<forall>c'. PlainOp c' \<notin> set (micro_code env c)"
    using False by (cases c) (auto simp: micro_code_def submit_code_def Let_def)
  ultimately show ?thesis
    unfolding iy_call_micros by (intro healthy_bind healthy_return) simp
qed

lemma healthy_acquire:
  "keeps_healthy env (acquire_read env t)" "keeps_healthy env (acquire_write env err h)"
  by (auto simp: act_spec_def acquire_read_def acquire_write_def Let_def healthy_def
      dest!: set_update_subset_insert [THEN subsetD])

lemma healthy_finish: "healthy env s \<Longrightarrow> healthy env (finish_shutdown env s)"
  by (auto simp: healthy_def finish_shutdown_def unregister_all_def cleanupIyokanCufhepp_def Let_def)

lemma healthy_resume: "keeps_healthy env (resume env b :: ('a, 'r, 'g, unit) iy_act)"
proof -
  have "(resume env b :: ('a, 'r, 'g, unit) iy_act) = abind (amodify (\<lambda>s. s\<lparr>blocked_in := None\<rparr>)) (\<lambda>_. case b of
      WaitForTask t \<Rightarrow> acquire_read env t | SyncOutput t \<Rightarrow> acquire_read env t
    | AcquireTlwe h \<Rightarrow> acquire_write env TlweMarkFailed h
    | AcquireVariable h \<Rightarrow> acquire_write env VariableMarkFailed h
    | WaitForAll \<Rightarrow> amodify (finish_shutdown env))"
    by (rule ext) (simp add: resume_def Let_def abind_def act_simps split: blocked.split)
  moreover have "keeps_healthy env (amodify (\<lambda>s :: ('a, 'r, 'g) backend. s\<lparr>blocked_in := None\<rparr>))"
    by (simp add: act_spec_def act_simps healthy_def)
  moreover have "keeps_healthy env (amodify (finish_shutdown env) :: ('a, 'r, 'g, unit) iy_act)"
    by (simp add: act_spec_def act_simps healthy_finish)
  ultimately show ?thesis
    by (auto intro!: healthy_bind healthy_acquire split: blocked.split)
qed

lemma healthy_complete: "healthy env s \<Longrightarrow> healthy env (complete_task im place t s)"
proof -
  assume h: "healthy env s"
  have "map ts_error (states (complete_task im place t s)) = map ts_error (states s)"
    by (simp add: complete_task_def taskCompleted_def map_update)
      (metis list_update_id map_update nth_map not_le list_update_beyond length_map)
  then have "ts_error ` set (states (complete_task im place t s)) = ts_error ` set (states s)"
    by (metis list.set_map)
  moreover have "\<forall>e \<in> ts_error ` set (states s). e \<noteq> 0 \<longrightarrow> (\<exists>h. se_acquire env h \<noteq> 0)"
    using h by (simp add: healthy_def)
  ultimately have "\<forall>e \<in> ts_error ` set (states (complete_task im place t s)). e \<noteq> 0 \<longrightarrow> (\<exists>h. se_acquire env h \<noteq> 0)"
    by simp
  moreover have "starpuInitOnce (complete_task im place t s) = starpuInitOnce s"
    by (simp add: complete_task_def taskCompleted_def)
  ultimately show ?thesis using h by (simp add: healthy_def)
qed

lemma healthy_reachable: "iy_reachable im env place s \<Longrightarrow> healthy env s"
proof (induction rule: iy_reachable.induct)
  case (start e m)
  show ?case by (simp add: healthy_def initial_backend_def)
next
  case (step s s')
  have host: "healthy env (s\<lparr>host := m\<rparr>)" for m using step.IH by (simp add: healthy_def)
  from step.hyps(2) show ?case
    by (cases rule: iy_step.cases)
      (use step.IH host in \<open>simp_all add: act_specD [OF healthy_call] act_specD [OF healthy_resume] healthy_complete\<close>)
qed

text \<open>The causes that an exception of a call can have while the runtime is up with the key \<open>k\<close>.\<close>

primrec cause :: "'w::len word iy_env \<Rightarrow> nat \<Rightarrow> api_call \<Rightarrow> iyokan_error \<Rightarrow> bool" where
  "cause env k c InitFailed = False"
| "cause env k c TwoKeys = (\<exists>k'. k' \<noteq> k \<and> (call_key c = Some k' \<or> c = Prepare k'))"
| "cause env k c AlreadyConfigured = False"
| "cause env k c SubmitFailed = (gate_of env c \<noteq> None \<and> (\<exists>n. se_insert env n \<noteq> 0))"
| "cause env k c RamSubmitFailed = (gate_of env c \<noteq> None \<and> (\<exists>n. se_insert env n \<noteq> 0))"
| "cause env k c RamMuxSubmitFailed = (gate_of env c \<noteq> None \<and> (\<exists>n. se_insert env n \<noteq> 0))"
| "cause env k c SyncFailed = (\<exists>h. se_acquire env h \<noteq> 0)"
| "cause env k c TlweMarkFailed = (\<exists>h. se_acquire env h \<noteq> 0)"
| "cause env k c VariableMarkFailed = (\<exists>h. se_acquire env h \<noteq> 0)"
| "cause env k c NestedCapture = (c = BeginCapture)"
| "cause env k c EndedInactiveCapture = (c = EndCapture)"
| "cause env k c SynchronizedInactiveCapture = (c = SynchronizeCapture)"
| "cause env k c StarpuDown = False"
| "cause env k c DeadHandle = False"

lemma micro_code_key: "KeyOp k' \<in> set (micro_code env c) \<Longrightarrow> call_key c = Some k' \<or> c = Prepare k'"
  by (cases c) (auto simp: micro_code_def submit_code_def Let_def call_key_def split: if_split_asm)

lemma micro_code_submits:
  "InsertOp err cl acc \<in> set (micro_code env c) \<Longrightarrow>
   gate_of env c \<noteq> None \<and> err \<in> {SubmitFailed, RamSubmitFailed, RamMuxSubmitFailed}"
  by (cases c) (auto simp: micro_code_def submit_code_def Let_def gate_of_def split: if_split_asm)

lemma micro_cause:
  assumes up: "up_with tls k s" and h: "healthy env s" and c: "concurrent_call c" "typed_call tls c"
    and sync: "\<forall>t. c = Synchronize t \<longrightarrow> t < length (tasks s)" and m: "m \<in> set (micro_code env c)"
    and run: "exec_micro env m l s = (Inl e, s')"
  shows "cause env k c e"
proof (cases m)
  case RuntimeOp
  then show ?thesis using run by (simp add: abind_def up_runtime [OF up] act_simps)
next
  case (KeyOp k')
  then show ?thesis
    using run up micro_code_key [of k' env c] m
    by (auto simp: abind_def act_simps bind_key_def up_with_def split: prod.split_asm sum.split_asm if_split_asm)
next
  case (TlweOp a)
  with run obtain s1 where "persistentHandleFor env a s = (Inl e, s1)"
    by (auto simp: abind_def act_simps split: prod.split_asm sum.split_asm)
  then show ?thesis using tlwe_quiet [OF up, of a env "Inl e"] micro_code_types(1) [OF c(2)] m TlweOp by blast
next
  case (VariableOp a bytes)
  with run obtain s1 where "persistentVariableHandleFor bytes a s = (Inl e, s1)"
    by (auto simp: abind_def act_simps split: prod.split_asm sum.split_asm)
  then show ?thesis using variable_quiet [OF up, of a bytes "Inl e"] micro_code_types(2) [OF c(2)] m VariableOp by blast
next
  case (InsertOp err cl acc)
  with run obtain s1 where "insert_task env err cl (zip (lc_handles l) acc) s = (Inl e, s1)"
    by (auto simp: abind_def act_simps split: prod.split_asm sum.split_asm)
  then have "e = err \<and> (\<exists>n. se_insert env n \<noteq> 0)"
    using up by (auto simp: insert_task_def Let_def up_with_def split: if_split_asm)
  then show ?thesis using micro_code_submits [of err cl acc env c] m InsertOp by auto
next
  case DeliverOp
  then show ?thesis
    using run by (auto simp: abind_def act_simps deliver_def split: option.split_asm prod.split_asm sum.split_asm if_split_asm)
next
  case (PlainOp c')
  with m micro_code_plain [OF _ c(1), of c' env] have c': "c' = c" "micro_code env c = [PlainOp c]" by auto
  with PlainOp run obtain s1 where "iy_call env c s = (Inl e, s1)"
    by (auto simp: abind_def act_simps split: prod.split_asm sum.split_asm)
  moreover have "\<exists>h. se_acquire env h \<noteq> 0" if "ts_error (states s ! t) \<noteq> 0" "t < length (tasks s)" for t
    using that h up by (auto simp: healthy_def up_with_def backend_inv_def tasks_ok_def)
  ultimately show ?thesis
    using c(1) c'(2) sync
    by (cases c) (auto simp: iy_call_def concurrent_call_def micro_code_def submit_code_def Let_def abind_def act_simps
        beginIyokanStarpuCapture_def endIyokanStarpuCapture_def synchronizeIyokanStarpuCapture_def
        markIyokanTLWEHostWrite_def markVariableHostWrite_def synchronizeOutput_def
        split: if_split_asm option.split_asm)
qed

lemma resume_cause:
  assumes up: "up_with tls k s" and h: "healthy env s" and blk: "blocked_in s = Some b" "b \<noteq> WaitForAll"
    and run: "resume env b s = (Inl e, s')"
  shows "cause env k c e"
proof -
  have inv: "backend_inv s" using up by (simp add: up_with_def)
  have live: "hi_live (handle_table s ! h)" if "h < length (handle_table s)" for h
    using h up that by (simp add: healthy_def up_with_def)
  have refs: "blocked_ok (length (tasks s)) (length (handle_table s)) (starpuRunning s) b"
    using inv blk by (simp add: backend_inv_def refs_ok_def)
  have task: "hi_live (handle_table s ! ts_output (states s ! t)) \<and>
      (ts_error (states s ! t) \<noteq> 0 \<longrightarrow> (\<exists>h. se_acquire env h \<noteq> 0))" if "t < length (tasks s)" for t
    using that inv live h by (auto simp: backend_inv_def tasks_ok_def task_wf_def healthy_def)
  show ?thesis
    using run refs blk(2) task live up
    by (cases b) (auto simp: resume_def acquire_read_def acquire_write_def Let_def up_with_def split: if_split_asm)
qed

definition excused :: "'w::len word iy_env \<Rightarrow> nat \<Rightarrow> ('w word, 'r, 'g) par \<Rightarrow> bool" where
  "excused env k S \<longleftrightarrow> healthy env (shared S) \<and>
     (\<forall>i c e. th_call (threads S i) = Some c \<and> th_error (threads S i) = Some e \<longrightarrow> cause env k c e)"

lemma healthy_view [simp]: "healthy env (view i S) = healthy env (shared S)"
  by (simp add: healthy_def view_def Let_def)

lemma excused_store:
  assumes "excused env k S" and "healthy env s" and "\<forall>c x. th_call th = Some c \<and> th_error th = Some x \<longrightarrow> cause env k c x"
  shows "excused env k (store i s th S)"
  unfolding excused_def
proof (intro conjI allI impI)
  fix j c x
  assume "th_call (threads (store i s th S) j) = Some c \<and> th_error (threads (store i s th S) j) = Some x"
  then show "cause env k c x" using assms by (cases "j = i") (auto simp: excused_def)
qed (simp add: assms(2))

lemma step_excused:
  assumes step: "par_step im env place tls S e S'" and inv: "par_inv env tls k S" and ex: "excused env k S"
  shows "excused env k S' \<and> (\<forall>i c x. e = Return i c (Inl x) \<longrightarrow> cause env k c x)"
  using step
proof (cases rule: par_step.cases)
  case (par_invoke i c)
  then show ?thesis using ex by (auto simp: excused_def invoke_def)
next
  case (par_micro i)
  let ?th = "threads S i"
  obtain m ms where ms: "th_code ?th = m # ms" using par_micro by (cases "th_code ?th") auto
  obtain c where call: "th_call ?th = Some c"
    using par_invD(2) [OF inv, of i] ms by (cases "th_call ?th") (auto simp: frame_ok_def)
  with par_invD(2) [OF inv, of i] ms obtain pre where
    fr: "concurrent_call c" "typed_call tls c" "\<forall>t. c = Synchronize t \<longrightarrow> t < length (tasks (view i S))"
      "micro_code env c = pre @ m # ms" "th_error ?th = None"
    by (auto simp: frame_ok_def)
  obtain r s where exec: "exec_micro env m (th_locals ?th) (view i S) = (r, s)" by fastforce
  have h: "healthy env (view i S)" using ex by (simp add: excused_def)
  have hs: "healthy env s"
    using act_specD [OF healthy_micro [OF healthy_call] h, of m "th_locals ?th"] exec by simp
  have "cause env k c x" if "r = Inl x" for x
    using micro_cause [OF par_invD(1) [OF inv, of i] h fr(1-3), of m "th_locals ?th" x s] exec that fr(4) by simp
  then have "excused env k (store i s (case r of Inl x \<Rightarrow> ?th\<lparr>th_code := [], th_error := Some x\<rparr>
      | Inr l \<Rightarrow> ?th\<lparr>th_code := ms, th_locals := l\<rparr>) S)"
    using hs call fr(5) by (intro excused_store [OF ex]) (auto split: sum.split)
  moreover have "S' = store i s (case r of Inl x \<Rightarrow> ?th\<lparr>th_code := [], th_error := Some x\<rparr>
      | Inr l \<Rightarrow> ?th\<lparr>th_code := ms, th_locals := l\<rparr>) S" "\<forall>i c x. e \<noteq> Return i c x"
    using par_micro(3) ms exec
    by (auto simp: micro_step_def Let_def split: sum.splits micro.splits option.splits)
  ultimately show ?thesis by simp
next
  case (par_wake i b)
  obtain c where call: "th_call (threads S i) = Some c" "b \<noteq> WaitForAll"
    using par_invD(2) [OF inv, of i] par_wake(1) by (auto simp: frame_ok_def split: option.splits)
  obtain r s where res: "resume env b (view i S) = (r, s)" by fastforce
  have h: "healthy env (view i S)" using ex by (simp add: excused_def)
  have hs: "healthy env s" using act_specD [OF healthy_resume h, of b] res by simp
  have "cause env k c x" if "r = Inl x" for x
    using resume_cause [OF par_invD(1) [OF inv, of i] h _ call(2)] res that par_wake(1) by simp
  then have "excused env k (store i s (case r of Inl x \<Rightarrow> (threads S i)\<lparr>th_error := Some x\<rparr> | Inr _ \<Rightarrow> threads S i) S)"
    using hs call ex by (intro excused_store [OF ex]) (auto simp: excused_def split: sum.split)
  moreover have "S' = store i s (case r of Inl x \<Rightarrow> (threads S i)\<lparr>th_error := Some x\<rparr> | Inr _ \<Rightarrow> threads S i) S"
    "\<forall>i c x. e \<noteq> Return i c x"
    using par_wake(3) res by (auto simp: wake_step_def wake_event_def split: sum.splits blocked.splits)
  ultimately show ?thesis by simp
next
  case (par_return i c)
  then show ?thesis using ex by (auto simp: excused_def leave_def return_value_def split: option.splits)
next
  case (par_write i a v)
  then show ?thesis using ex by (simp add: excused_def host_write_def healthy_def)
next
  case (par_complete t)
  then show ?thesis using ex by (simp add: excused_def healthy_complete)
qed

lemma run_excused:
  assumes "par_run im env place tls S es S'" and "par_inv env tls k S" and "excused env k S"
  shows "excused env k S' \<and> (\<forall>i c x. Return i c (Inl x) \<in> set es \<longrightarrow> cause env k c x)"
  using assms
proof (induction rule: par_run.induct)
  case (par_snoc S es S' e S'')
  then show ?case using step_excused [of im env place tls S' e S'' k] par_run_ok by fastforce
qed simp

lemma prepared_start_excused: "prepared_start im env place tls k S \<Longrightarrow> excused env k S"
  using healthy_reachable by (auto simp: prepared_start_def excused_def idle_thread_def)

lemma prepared_start_phase: "prepared_start im env place tls k S \<Longrightarrow> phase_of (threads S i) = Idle"
  by (simp add: prepared_start_def phase_of_def idle_thread_def)

section \<open>A concrete execution\<close>

definition sample_par :: "(32 word, nat, bool) par" where
  "sample_par = \<lparr>shared = snd (iy_call sample_env (Prepare 7) sample_start), threads = (\<lambda>_. idle_thread)\<rparr>"

lemma sample_par_fields:
  "starpuRunning (shared sample_par)" "currentEvalKey (shared sample_par) = Some 7" "tasks (shared sample_par) = []"
  "starpuInitOnce (shared sample_par)" "starpuInitStatus (shared sample_par) = 0" "attempts (shared sample_par) = 0"
  "persistentHandles (shared sample_par) = Map.empty" "persistentVariableHandles (shared sample_par) = Map.empty"
  "threads sample_par = (\<lambda>_. idle_thread)"
  by (simp_all add: sample_par_def call_unfold prepareIyokanStarpu_def)

lemma sample_par_start: "prepared_start sample_machine sample_env cpu_only UNIV 7 sample_par"
proof -
  have "iy_reachable sample_machine sample_env cpu_only (shared sample_par)"
    unfolding sample_par_def using call_reachable [OF sample_start_reachable, of "Prepare 7"] by simp
  then show ?thesis by (simp add: prepared_start_def sample_par_fields typed_def)
qed

text \<open>Two threads negate the bit at address 1, into 0 and into 2, one step each in turn.\<close>

definition sample_par0 :: "(32 word, nat, bool) par" where
  "sample_par0 = invoke sample_env 0 (NotGate 0 1) sample_par"

definition sample_par1 :: "(32 word, nat, bool) par" where
  "sample_par1 = invoke sample_env 1 (NotGate 2 1) sample_par0"

fun schedule ::
  "'w::len word iy_env \<Rightarrow> nat list \<Rightarrow> ('w word, 'r, 'g) par \<Rightarrow> ('w word, 'r, 'g) event list \<times> ('w word, 'r, 'g) par" where
  "schedule env [] S = ([], S)"
| "schedule env (i # is) S = (let (e, S') = micro_step env i S; (es, S'') = schedule env is S' in (e # es, S''))"

fun runnable :: "'w::len word iy_env \<Rightarrow> nat list \<Rightarrow> ('w word, 'r, 'g) par \<Rightarrow> bool" where
  "runnable env [] S = True"
| "runnable env (i # is) S \<longleftrightarrow> th_code (threads S i) \<noteq> [] \<and> th_blocked (threads S i) = None \<and>
     runnable env is (snd (micro_step env i S))"

lemma par_run_single: "par_step im env place tls S e S' \<Longrightarrow> par_run im env place tls S [e] S'"
  using par_snoc [OF par_nil, of im env place tls S e S'] by simp

lemma par_run_append:
  "par_run im env place tls S' es' S'' \<Longrightarrow> par_run im env place tls S es S' \<Longrightarrow> par_run im env place tls S (es @ es') S''"
  by (induction rule: par_run.induct) (simp, metis append.assoc par_snoc)

lemma schedule_run:
  "runnable env is S \<Longrightarrow> par_run im env place tls S (fst (schedule env is S)) (snd (schedule env is S))"
proof (induction "is" arbitrary: S)
  case Nil
  then show ?case by (simp add: par_nil)
next
  case (Cons i "is")
  obtain e S' where step: "micro_step env i S = (e, S')" by fastforce
  with Cons.prems have "par_step im env place tls S e S'" by (auto intro: par_step.par_micro)
  moreover have "par_run im env place tls S' (fst (schedule env is S')) (snd (schedule env is S'))"
    using Cons step by simp
  ultimately show ?case
    using par_run_append [OF _ par_run_single] step by (fastforce simp: Let_def split: prod.splits)
qed

definition sample_turns :: "nat list" where
  "sample_turns = [0, 1, 0, 1, 0, 0]"

definition sample_events :: "(32 word, nat, bool) event list" where
  "sample_events = [Invoke 0 (NotGate 0 1), Invoke 1 (NotGate 2 1)] @ fst (schedule sample_env sample_turns sample_par1)"

definition sample_par2 :: "(32 word, nat, bool) par" where
  "sample_par2 = snd (schedule sample_env sample_turns sample_par1)"

lemma sample_turns_run:
  "runnable sample_env sample_turns sample_par1"
  "map (\<lambda>e. case e of Commit i c t \<Rightarrow> Some (i, c, t) | _ \<Rightarrow> None) (fst (schedule sample_env sample_turns sample_par1)) =
     [None, None, None, None, None, Some (0, NotGate 0 1, 0)]"
  by (simp_all add: sample_turns_def sample_par1_def sample_par0_def sample_par_fields invoke_def idle_thread_def micro_code_def
      submit_code_def Let_def micro_step_def view_def store_def no_locals_def call_unfold split: prod.split)

lemma sample_par_run: "par_run sample_machine sample_env cpu_only UNIV sample_par sample_events sample_par2"
proof -
  have "par_step sample_machine sample_env cpu_only UNIV sample_par (Invoke 0 (NotGate 0 1)) sample_par0"
    unfolding sample_par0_def
    by (rule par_step.par_invoke) (simp_all add: sample_par_fields idle_thread_def concurrent_call_def typed_call_def)
  moreover have "par_step sample_machine sample_env cpu_only UNIV sample_par0 (Invoke 1 (NotGate 2 1)) sample_par1"
    unfolding sample_par1_def
    by (rule par_step.par_invoke)
      (simp_all add: sample_par0_def invoke_def sample_par_fields idle_thread_def concurrent_call_def typed_call_def)
  ultimately have "par_run sample_machine sample_env cpu_only UNIV sample_par ([Invoke 0 (NotGate 0 1)] @ [Invoke 1 (NotGate 2 1)]) sample_par1"
    by (intro par_run_append par_run_single)
  from par_run_append [OF schedule_run [OF sample_turns_run(1)] this] show ?thesis
    by (simp add: sample_events_def sample_par2_def)
qed

section \<open>Guarantees\<close>

text \<open>C15. Concurrent gate calls are linearisable. Take any number of threads that call the interface of a prepared runtime, interleaved
  at every critical section and every call of StarPU, with tasks completing at any time. The whole execution is a
  sequential one: submitting a task applies its gate at once to the values of all objects, the synchronisation of an
  output copies such a value to the host, a marked write copies it back, and no other step changes
  anything. Every thread alternates between no call and one call, and a gate call that returns normally has
  taken effect exactly once, between its invocation and its return.\<close>

theorem concurrent_calls_linearise:
  assumes "prepared_start im env place tls k S" and "par_run im env place tls S es S'"
  shows "spec_run im env place k es (abs_state im place S) (abs_state im place S') \<and>
         (\<forall>i. advances env i es Idle = Some (phase_of (threads S' i)))"
  using par_run_ok [OF assms(2) prepared_start_inv [OF assms(1)]] prepared_start_phase [OF assms(1)] by simp

theorem concurrent_calls_linearise_witness:
  "spec_run sample_machine sample_env cpu_only 7 sample_events (abs_state sample_machine cpu_only sample_par)
     (abs_state sample_machine cpu_only sample_par2) \<and>
   (\<forall>i. advances sample_env i sample_events Idle \<noteq> None)"
  using concurrent_calls_linearise [OF sample_par_start sample_par_run] by simp




lemma sample_nested_run:
  "\<exists>es S'. par_run sample_machine sample_env cpu_only UNIV sample_par es S' \<and>
     Return 0 EndCapture (Inl EndedInactiveCapture) \<in> set es"
proof -
  let ?S = "invoke sample_env 0 EndCapture sample_par"
  let ?T = "snd (micro_step sample_env 0 ?S)"
  have th: "th_code (threads ?S 0) \<noteq> []" "th_blocked (threads ?S 0) = None"
    "th_call (threads ?T 0) = Some EndCapture" "th_code (threads ?T 0) = []" "th_blocked (threads ?T 0) = None"
    "return_value (threads ?T 0) = Inl EndedInactiveCapture"
    by (simp_all add: invoke_def sample_par_fields idle_thread_def micro_code_def micro_step_def Let_def view_def
        store_def no_locals_def iy_call_def abind_def act_simps endIyokanStarpuCapture_def return_value_def)
  have "par_step sample_machine sample_env cpu_only UNIV sample_par (Invoke 0 EndCapture) ?S"
    by (rule par_step.par_invoke) (simp_all add: sample_par_fields idle_thread_def concurrent_call_def typed_call_def)
  moreover have "par_step sample_machine sample_env cpu_only UNIV ?S (fst (micro_step sample_env 0 ?S)) ?T"
    using th by (intro par_step.par_micro) auto
  moreover have "par_step sample_machine sample_env cpu_only UNIV ?T (Return 0 EndCapture (Inl EndedInactiveCapture)) (leave 0 ?T)"
    using par_step.par_return [OF th(3-5)] th(6) by simp
  ultimately have "par_run sample_machine sample_env cpu_only UNIV sample_par
      (([Invoke 0 EndCapture] @ [fst (micro_step sample_env 0 ?S)]) @ [Return 0 EndCapture (Inl EndedInactiveCapture)]) (leave 0 ?T)"
    by (intro par_run_append par_run_single)
  then show ?thesis by (intro exI conjI) auto
qed


text \<open>C21. The threads agree on the registries. At every moment of a concurrent execution an object has at most one handle, two objects
  never share one, every handle is live; the handles that a thread in the middle of a call has collected are those of
  the registry for the addresses its call has looked up; the callback boxes are those of the unfinished tasks; and
  the token a thread has captured is a task.\<close>

theorem concurrent_registries_agree:
  assumes "prepared_start im env place tls k S" and "par_run im env place tls S es S'"
  shows "inj_on (handle_of (shared S')) (dom (handle_of (shared S'))) \<and>
         (\<forall>a h. handle_of (shared S') a = Some h \<longrightarrow>
            h < length (handle_table (shared S')) \<and> hi_addr (handle_table (shared S') ! h) = a \<and>
            hi_live (handle_table (shared S') ! h)) \<and>
         (\<forall>i c. th_call (threads S' i) = Some c \<longrightarrow> th_error (threads S' i) = None \<longrightarrow>
            (\<exists>pre. micro_code env c = pre @ th_code (threads S' i) \<and>
               map (handle_of (shared S')) (looked_up pre) = map Some (lc_handles (th_locals (threads S' i))))) \<and>
         callback_boxes (shared S') = filter (unfinished (shared S')) [0..<length (tasks (shared S'))] \<and>
         (\<forall>i t. th_captured (threads S' i) = Some t \<longrightarrow> th_active (threads S' i) \<and> t < length (tasks (shared S')))"
proof -
  have inv: "par_inv env tls k S'" using par_run_ok [OF assms(2) prepared_start_inv [OF assms(1)]] by simp
  have s: "backend_inv (view i S')" for i using par_invD(1) [OF inv] by (simp add: up_with_def)
  have ok: "h < length (handle_table (shared S')) \<and> hi_addr (handle_table (shared S') ! h) = a \<and>
      hi_live (handle_table (shared S') ! h)" if "handle_of (shared S') a = Some h" for a h
    using handle_of_ok [OF s [of 0], of a h] that by simp
  have "inj_on (handle_of (shared S')) (dom (handle_of (shared S')))"
    using ok by (intro inj_onI) (metis domD)
  moreover have "\<exists>pre. micro_code env c = pre @ th_code (threads S' i) \<and>
      map (handle_of (shared S')) (looked_up pre) = map Some (lc_handles (th_locals (threads S' i)))"
    if "th_call (threads S' i) = Some c" "th_error (threads S' i) = None" for i c
    using par_invD(2) [OF inv, of i] that by (auto simp: frame_ok_def locals_ok_def)
  moreover have "callback_boxes (shared S') = filter (unfinished (shared S')) [0..<length (tasks (shared S'))]"
    using s [of 0] by (simp add: backend_inv_def boxes_ok_def)
  moreover have "th_active (threads S' i) \<and> t < length (tasks (shared S'))" if "th_captured (threads S' i) = Some t" for i t
    using s [of i] that by (simp add: backend_inv_def refs_ok_def view_def Let_def)
  ultimately show ?thesis using ok by blast
qed

theorem concurrent_registries_agree_witness:
  "inj_on (handle_of (shared sample_par2)) (dom (handle_of (shared sample_par2)))"
  using concurrent_registries_agree [OF sample_par_start sample_par_run] by simp

text \<open>The interleaved model and the sequential one are the same program: the steps of a call, run by one thread without
  interruption, return what the call returns, throw what it throws, and leave the state that it leaves.\<close>

lemma micro_steps_are_the_call:
  "iy_call env c s = (case run_micros env (micro_code env c) no_locals s of
     (Inl e, s') \<Rightarrow> (Inl e, s') | (Inr l, s') \<Rightarrow> (Inr (lc_result l), s'))"
  unfolding iy_call_micros by (simp add: abind_def act_simps split: prod.split sum.split)

end
