(* ===== verification/Iyokan_Types.thy ===== *)
theory Iyokan_Types
  imports Iyokan_Concurrency
begin

text \<open>
  The types of the objects that the KVSP runtime (src/src/iyokan-starpu-codelets.cpp) computes on. The
  registries forget them: a handle is a pointer with a size, and a codelet casts its buffers to the
  types it expects. Shown here: clients that call with objects of the types of the C++
  signatures keep every value that a task reads of the type that its codelet casts it to, in
  every interleaving, so no codelet reads memory as another type.
\<close>

section \<open>Types\<close>

datatype cell_ty = TlweT | TrlweT | TrgswT

primrec has_ty :: "nat \<Rightarrow> cell_ty \<Rightarrow> ('a, 'r, 'g) cell \<Rightarrow> bool" where
  "has_ty n TlweT c = (case c of TLWECell ws \<Rightarrow> length ws = Suc n | _ \<Rightarrow> False)"
| "has_ty n TrlweT c = (case c of TRLWECell r \<Rightarrow> True | _ \<Rightarrow> False)"
| "has_ty n TrgswT c = (case c of TRGSWCell g \<Rightarrow> True | _ \<Rightarrow> False)"

definition well_typed :: "nat \<Rightarrow> (nat \<Rightarrow> cell_ty) \<Rightarrow> (nat \<Rightarrow> ('a, 'r, 'g) cell) \<Rightarrow> bool" where
  "well_typed n \<Gamma> m \<longleftrightarrow> (\<forall>a. has_ty n (\<Gamma> a) (m a))"

text \<open>The signatures of the gate calls.\<close>

definition call_ty :: "(nat \<Rightarrow> cell_ty) \<Rightarrow> api_call \<Rightarrow> bool" where
  "call_ty \<Gamma> c = (case c of
      BinaryGate g out l r k \<Rightarrow> list_all (\<lambda>a. \<Gamma> a = TlweT) [out, l, r]
    | NotGate out i \<Rightarrow> list_all (\<lambda>a. \<Gamma> a = TlweT) [out, i]
    | MuxGate out sel t f k \<Rightarrow> list_all (\<lambda>a. \<Gamma> a = TlweT) [out, sel, t, f]
    | CmuxGate out sel t f \<Rightarrow> list_all (\<lambda>a. \<Gamma> a = TrlweT) [out, t, f] \<and> \<Gamma> sel = TrgswT
    | MuxWoSEGate out sel t f k \<Rightarrow> \<Gamma> out = TrlweT \<and> list_all (\<lambda>a. \<Gamma> a = TlweT) [sel, t, f]
    | _ \<Rightarrow> True)"

text \<open>The libraries return samples of the dimension of level 0, as their types say.\<close>

definition returns_samples :: "('k, 'w::len word, 'r, 'g) iy_machine \<Rightarrow> bool" where
  "returns_samples im \<longleftrightarrow> (\<forall>ek a b c.
     length a = Suc (im_n im) \<longrightarrow> length b = Suc (im_n im) \<longrightarrow> length c = Suc (im_n im) \<longrightarrow>
       (\<forall>ca cb off. length (HomGate (gates0 (im_lib im ek)) ca cb off a b) = Suc (im_n im)) \<and>
       length (HomMUX (gates0 (im_lib im ek)) a b c) = Suc (im_n im) \<and>
       (\<forall>boot dev. length (Bootstrap2 (cuda0 (im_lib im ek)) boot dev a b) = Suc (im_n im)) \<and>
       (\<forall>dev. length (MuxBootstrap (cuda0 (im_lib im ek)) dev a b c) = Suc (im_n im)))"

lemma has_tyD:
  "has_ty n TlweT c \<Longrightarrow> \<exists>ws. c = TLWECell ws \<and> length ws = Suc n"
  "has_ty n TrlweT c \<Longrightarrow> \<exists>r. c = TRLWECell r"
  "has_ty n TrgswT c \<Longrightarrow> \<exists>g. c = TRGSWCell g"
  by (cases c; simp)+

lemma well_typed_upd: "well_typed n \<Gamma> m \<Longrightarrow> has_ty n (\<Gamma> a) v \<Longrightarrow> well_typed n \<Gamma> (m(a := v))"
  by (simp add: well_typed_def)

section \<open>Codelets respect the types\<close>

lemma tlwe_buffers:
  "length ws = Suc n \<Longrightarrow> load_tlwe n (TLWECell ws) = Inr ws"
  "length old = Suc n \<Longrightarrow> length ws = Suc n \<Longrightarrow> store_tlwe n ws (TLWECell old) = Inr (TLWECell ws)"
  by (simp_all add: load_tlwe_def store_tlwe_def)

lemmas run_defs = iy_run_def makeCodelet_def with_cuda_def addCudaImplementation_def iy_run_cpu_def iy_run_cuda_def
  binaryCodelet_def notCodelet_def muxCodelet_def cmuxFFTCodelet_def cmuxFFTInPlaceTrueCodelet_def
  cmuxFFTInPlaceFalseCodelet_def muxWoSECodelet_def runBinaryBootstrap_def iyokanCufheppHomMUX_def
  iyokanCufheppCMUXFFT_def iyokanCufheppCMUXFFTInPlaceTrue_def iyokanCufheppCMUXFFTInPlaceFalse_def
  deref_key_def load_trlwe_def load_trgsw_def

lemma codelet_typed:
  assumes im: "returns_samples im" and g: "gate_of env c = Some (cl, as)" and ty: "call_ty \<Gamma> c"
    and m: "well_typed (im_n im) \<Gamma> m" and w: "fst w \<in> set (ic_where cl)"
  shows "\<exists>v. iy_run im (Some k) w cl (map m as) = Inr v \<and> has_ty (im_n im) (\<Gamma> (hd as)) v"
proof -
  have tlwe: "\<exists>ws. m a = TLWECell ws \<and> length ws = Suc (im_n im)" if "\<Gamma> a = TlweT" for a
    using m has_tyD(1) that by (metis well_typed_def)
  have trlwe: "\<exists>r. m a = TRLWECell r" if "\<Gamma> a = TrlweT" for a
    using m has_tyD(2) that by (metis well_typed_def)
  have trgsw: "\<exists>r. m a = TRGSWCell r" if "\<Gamma> a = TrgswT" for a
    using m has_tyD(3) that by (metis well_typed_def)
  note lens = im [unfolded returns_samples_def, rule_format]
  show ?thesis
  proof (cases c)
    case (BinaryGate gt out l r k')
    obtain ca cb off boot nm where row: "gate2_row gt = (ca, cb, off, boot, nm)" by (metis prod.exhaust)
    from BinaryGate ty tlwe obtain wo wl wr where b: "m out = TLWECell wo" "length wo = Suc (im_n im)"
      "m l = TLWECell wl" "length wl = Suc (im_n im)" "m r = TLWECell wr" "length wr = Suc (im_n im)"
      by (auto simp: call_ty_def) metis
    then show ?thesis
      using BinaryGate g w ty lens [of wl wr wl]
      by (cases "fst w")
        (auto simp: gate_of_def codeletFor_row(1) [OF row] binary_codelet_def run_defs tlwe_buffers call_ty_def split: if_splits)
  next
    case (NotGate out i)
    with ty tlwe obtain wo wi where "m out = TLWECell wo" "length wo = Suc (im_n im)"
      "m i = TLWECell wi" "length wi = Suc (im_n im)" by (auto simp: call_ty_def) metis
    then show ?thesis
      using NotGate g w ty by (auto simp: gate_of_def notStarpuCodelet_def run_defs tlwe_buffers call_ty_def)
  next
    case (MuxGate out s t f k')
    with ty tlwe obtain wo ws wt wf where "m out = TLWECell wo" "length wo = Suc (im_n im)"
      "m s = TLWECell ws" "length ws = Suc (im_n im)" "m t = TLWECell wt" "length wt = Suc (im_n im)"
      "m f = TLWECell wf" "length wf = Suc (im_n im)" by (auto simp: call_ty_def) metis
    then show ?thesis
      using MuxGate g w ty lens [of ws wt wf]
      by (cases "fst w") (auto simp: gate_of_def muxStarpuCodelet_def run_defs tlwe_buffers call_ty_def split: if_splits)
  next
    case (CmuxGate out s t f)
    with ty trlwe trgsw obtain ro rs rt rf where "m out = TRLWECell ro" "m s = TRGSWCell rs" "m t = TRLWECell rt"
      "m f = TRLWECell rf" by (auto simp: call_ty_def) metis
    then show ?thesis
      using CmuxGate g w ty
      by (cases "fst w") (auto simp: gate_of_def cmux_codelet_defs run_defs call_ty_def split: if_splits)
  next
    case (MuxWoSEGate out s t f k')
    with ty tlwe trlwe obtain ro ws wt wf where "m out = TRLWECell ro"
      "m s = TLWECell ws" "length ws = Suc (im_n im)" "m t = TLWECell wt" "length wt = Suc (im_n im)"
      "m f = TLWECell wf" "length wf = Suc (im_n im)" by (auto simp: call_ty_def) metis
    then show ?thesis
      using MuxWoSEGate g w ty by (auto simp: gate_of_def muxWoSEStarpuCodelet_def run_defs tlwe_buffers call_ty_def)
  qed (use g in \<open>simp_all add: gate_of_def\<close>)
qed

lemma apply_gate_typed:
  assumes "returns_samples im" and "gate_of env c = Some (cl, as)" and "call_ty \<Gamma> c"
    and m: "well_typed (im_n im) \<Gamma> m" and w: "fst w \<in> set (ic_where cl)"
  shows "well_typed (im_n im) \<Gamma> (apply_gate im (Some k) w cl as m)"
  using codelet_typed [OF assms, of k] m by (auto simp: apply_gate_def intro: well_typed_upd)

section \<open>Every execution respects the types\<close>

text \<open>
  Events of clients that keep to the types: calls with objects of the types of the signature, and
  writes of a value of the type of the object. StarPU runs a task on a worker of its codelet.
\<close>

definition event_ty :: "'w::len word iy_env \<Rightarrow> (nat \<Rightarrow> arch \<times> int) \<Rightarrow> nat \<Rightarrow> (nat \<Rightarrow> cell_ty) \<Rightarrow>
   ('w word, 'r, 'g) event \<Rightarrow> bool" where
  "event_ty env place n \<Gamma> e = (case e of
      Invoke i c \<Rightarrow> call_ty \<Gamma> c
    | HostWrite i a v \<Rightarrow> has_ty n (\<Gamma> a) v
    | Commit i c t \<Rightarrow> (case gate_of env c of None \<Rightarrow> True | Some (cl, as) \<Rightarrow> fst (place t) \<in> set (ic_where cl))
    | _ \<Rightarrow> True)"

lemma spec_event_typed:
  assumes "spec_event im env place k e (m, h, d) (m', h', d')" and "event_ty env place (im_n im) \<Gamma> e"
    and "returns_samples im" and "\<forall>i c t. e = Commit i c t \<longrightarrow> call_ty \<Gamma> c"
    and "well_typed (im_n im) \<Gamma> m" and "well_typed (im_n im) \<Gamma> h"
  shows "well_typed (im_n im) \<Gamma> m' \<and> well_typed (im_n im) \<Gamma> h'"
proof (cases e)
  case (Commit i c t)
  with assms show ?thesis
    by (auto simp: event_ty_def intro: apply_gate_typed split: option.splits)
qed (use assms in \<open>auto simp: event_ty_def well_typed_def split: if_splits\<close>)

text \<open>The call of a thread in the middle of one has the types of its signature.\<close>

definition calls_typed :: "(nat \<Rightarrow> cell_ty) \<Rightarrow> (nat \<Rightarrow> phase) \<Rightarrow> bool" where
  "calls_typed \<Gamma> ph \<longleftrightarrow> (\<forall>i c. ph i = Calling c \<longrightarrow> call_ty \<Gamma> c)"

lemma advance_typed:
  assumes "\<forall>i. advance env i e (ph i) = Some (ph' i)" and "event_ty env place n \<Gamma> e" and "calls_typed \<Gamma> ph"
  shows "calls_typed \<Gamma> ph'" and "e = Commit i c t \<Longrightarrow> call_ty \<Gamma> c"
proof -
  show "calls_typed \<Gamma> ph'"
    unfolding calls_typed_def
  proof (intro allI impI)
    fix i c
    assume "ph' i = Calling c"
    with assms(1) [rule_format, of i] have "ph i = Calling c \<or> e = Invoke i c"
      by (cases e) (auto split: if_split_asm)
    then show "call_ty \<Gamma> c"
      using assms(2,3) by (auto simp: calls_typed_def event_ty_def)
  qed
next
  assume "e = Commit i c t"
  with assms(1) [rule_format, of i] assms(3) show "call_ty \<Gamma> c"
    by (auto simp: calls_typed_def split: if_splits)
qed

lemma par_run_typed:
  assumes "par_run im env place tls S es S'" and "par_inv env tls k S" and "returns_samples im"
    and "\<forall>e \<in> set es. event_ty env place (im_n im) \<Gamma> e"
    and "calls_typed \<Gamma> (\<lambda>i. phase_of (threads S i))"
    and "well_typed (im_n im) \<Gamma> (mem im place (shared S))" and "well_typed (im_n im) \<Gamma> (host (shared S))"
  shows "calls_typed \<Gamma> (\<lambda>i. phase_of (threads S' i)) \<and> well_typed (im_n im) \<Gamma> (mem im place (shared S')) \<and>
    well_typed (im_n im) \<Gamma> (host (shared S'))"
  using assms
proof (induction rule: par_run.induct)
  case (par_snoc S es S' e S'')
  have IH: "calls_typed \<Gamma> (\<lambda>i. phase_of (threads S' i))" "well_typed (im_n im) \<Gamma> (mem im place (shared S'))"
    "well_typed (im_n im) \<Gamma> (host (shared S'))"
    using par_snoc.IH par_snoc.prems by simp_all
  have ok: "step_ok im env place tls k S' e S''"
    using par_step_ok [OF par_snoc.hyps(2)] par_run_ok [OF par_snoc.hyps(1) par_snoc.prems(1)] by blast
  have e: "event_ty env place (im_n im) \<Gamma> e" using par_snoc.prems(3) by simp
  have adv: "\<forall>i. advance env i e (phase_of (threads S' i)) = Some (phase_of (threads S'' i))"
    using ok by (simp add: step_ok_def)
  note typed = advance_typed [OF adv e IH(1)]
  have "spec_event im env place k e (abs_state im place S') (abs_state im place S'')"
    using ok by (simp add: step_ok_def)
  from spec_event_typed [OF this [unfolded abs_state_def] e par_snoc.prems(2) _ IH(2,3)] typed show ?case by blast
qed simp

text \<open>C17. No task reads memory as another type. When the clients call with objects of the types of the
  signatures and write values of the type of the object, then in every interleaving the values of
  all objects and the contents of host memory stay of their types; and a task that is submitted in such a
  state succeeds on every worker that its codelet allows, with a result of the type of its output, which is what
  its gate makes of the values of its operands.\<close>

theorem gate_calls_respect_types:
  assumes "prepared_start im env place tls k S" and "par_run im env place tls S es S'"
    and "returns_samples im" and "\<forall>e \<in> set es. event_ty env place (im_n im) \<Gamma> e"
    and "well_typed (im_n im) \<Gamma> (mem im place (shared S))" and "well_typed (im_n im) \<Gamma> (host (shared S))"
  shows "well_typed (im_n im) \<Gamma> (mem im place (shared S')) \<and> well_typed (im_n im) \<Gamma> (host (shared S')) \<and>
    (\<forall>i c t S''. par_step im env place tls S' (Commit i c t) S'' \<longrightarrow> event_ty env place (im_n im) \<Gamma> (Commit i c t) \<longrightarrow>
       (\<exists>cl as v. gate_of env c = Some (cl, as) \<and>
          iy_run im (Some k) (place t) cl (map (mem im place (shared S')) as) = Inr v \<and>
          has_ty (im_n im) (\<Gamma> (hd as)) v \<and> mem im place (shared S'') = (mem im place (shared S'))(hd as := v)))"
proof -
  have inv: "par_inv env tls k S" by (rule prepared_start_inv [OF assms(1)])
  have "calls_typed \<Gamma> (\<lambda>i. phase_of (threads S i))"
    by (simp add: calls_typed_def prepared_start_phase [OF assms(1)])
  note typed = par_run_typed [OF assms(2) inv assms(3,4) this assms(5,6)]
  have "\<exists>cl as v. gate_of env c = Some (cl, as) \<and>
      iy_run im (Some k) (place t) cl (map (mem im place (shared S')) as) = Inr v \<and>
      has_ty (im_n im) (\<Gamma> (hd as)) v \<and> mem im place (shared S'') = (mem im place (shared S'))(hd as := v)"
    if "par_step im env place tls S' (Commit i c t) S''" "event_ty env place (im_n im) \<Gamma> (Commit i c t)" for i c t S''
  proof -
    have ok: "step_ok im env place tls k S' (Commit i c t) S''"
      using par_step_ok [OF that(1)] par_run_ok [OF assms(2) inv] by blast
    then obtain cl as where cl: "gate_of env c = Some (cl, as)"
      "mem im place (shared S'') = apply_gate im (Some k) (place t) cl as (mem im place (shared S'))"
      by (auto simp: step_ok_def abs_state_def split: option.splits)
    have adv: "\<forall>j. advance env j (Commit i c t) (phase_of (threads S' j)) = Some (phase_of (threads S'' j))"
      using ok by (simp add: step_ok_def)
    have "call_ty \<Gamma> c"
      by (rule advance_typed(2) [OF adv that(2) _ refl]) (use typed in blast)
    with codelet_typed [OF assms(3) cl(1)] typed that(2) cl show ?thesis
      by (fastforce simp: event_ty_def apply_gate_def)
  qed
  with typed show ?thesis by blast
qed

definition sample_ty :: "nat \<Rightarrow> cell_ty" where
  "sample_ty a = (if a < 3 then TlweT else if a = 10 \<or> a = 11 then TrlweT else TrgswT)"

lemma sample_well_typed: "well_typed 0 sample_ty sample_memory"
  by (auto simp: well_typed_def sample_ty_def sample_memory_def exact_sample_def)

lemma sample_returns_samples: "returns_samples sample_machine"
  by (simp add: returns_samples_def sample_machine_def sample_platform_def sign_gate_def exact_sample_def)

theorem gate_calls_respect_types_witness:
  "well_typed 0 sample_ty (mem sample_machine cpu_only (shared sample_par2))"
proof -
  have "\<forall>e \<in> set sample_events. event_ty sample_env cpu_only 0 sample_ty e"
    by (simp add: sample_events_def sample_turns_def sample_par1_def sample_par0_def sample_par_fields invoke_def idle_thread_def
        micro_code_def submit_code_def Let_def micro_step_def view_def store_def no_locals_def call_unfold event_ty_def
        call_ty_def sample_ty_def gate_of_def notStarpuCodelet_def makeCodelet_def split: prod.split)
  moreover have "mem sample_machine cpu_only (shared sample_par) = sample_memory" "host (shared sample_par) = sample_memory"
    by (simp_all add: mem_def [abs_def] sample_par_def call_unfold prepareIyokanStarpu_def)
  ultimately have "well_typed (im_n sample_machine) sample_ty (mem sample_machine cpu_only (shared sample_par2))"
    using sample_well_typed
    by (intro conjunct1 [OF gate_calls_respect_types [OF sample_par_start sample_par_run sample_returns_samples]]) simp_all
  then show ?thesis by simp
qed

end
