(* ===== verification/Spec2Isabelle.thy ===== *)
theory Spec2Isabelle
  imports Tangor_Main Hoge_Wrapper Netlist_Documents Iyokan_Types
begin

text \<open>
  Verification of Tangor, an evaluator of circuits on TFHE ciphertexts that
  runs every gate as a StarPU task.

  \<^bold>\<open>The program.\<close> Tangor has two evaluators that share the codelet idea and
  nothing else.

  \<^item> The native evaluator. src/src/tangor.cpp reads an evaluation key, encrypted
    inputs and a netlist; src/src/yosys-json-parser.cpp turns the JSON of Yosys
    into a \<open>ParsedBC\<close>; src/src/starpu_build_graph.cpp registers one vector per
    ciphertext and submits one task per gate; src/src/wrappedcodelets.cpp (with
    src/include/wrappedcodelets.hpp) and src/src/cufhepp_starpu.cu hold the CPU,
    FPGA and CUDA functions of the tasks; src/src/hogewrapper.cpp and
    src/include/hogewrapper.hpp drive the HOGE accelerator.
  \<^item> The KVSP evaluator. src/include/iyokan-starpu-offload.hpp redirects the
    TFHEpp gates of the Iyokan frontend to src/src/iyokan-starpu-codelets.cpp,
    which keeps persistent data handles, submits a task per call, and either
    waits for it or hands it to the active capture;
    src/src/iyokan-cufhepp-starpu.cu holds its CUDA functions.

  \<^bold>\<open>The theories.\<close>

  \<^item> \<open>Tangor_Prelude\<close>: integer types, results of fallible operations (sums with the
    error on the left), vectors searched by value, and operations on a state that
    can throw (\<open>act\<close>, with \<open>act_spec\<close> as their Hoare triples); collections
    \<open>result_simps\<close>, \<open>vector_simps\<close>, \<open>act_simps\<close>.
  \<^item> \<open>Torus_Gates\<close>: torus words, phase, noise, and when a sample encodes a bit; the
    contracts of TFHEpp and cuFHEpp (\<open>tfhe_contract\<close>, \<open>cufhe_contract\<close>) as
    parameters; the linear-gate lemma that both codelet theories use.
  \<^item> \<open>Dataflow_Tasks\<close>: StarPU's sequential data consistency as a step relation over
    started and unfinished tasks, and the locale \<open>dataflow\<close> in which every run
    is shown to be race free, to end, and to end as the sequential run does. It is
    interpreted on the tasks of both evaluators (\<open>tangor\<close>, \<open>iyokan\<close>).
  \<^item> \<open>Yosys_Json_Parser\<close>: the constructor of \<open>ParsedBC\<close> on the parsed JSON tree, one
    definition per section of the constructor, every throw and every out-of-range access
    an error value, the dependency vector with its 32-bit sizes.
  \<^item> \<open>Netlist_Documents\<close>: which documents the constructor accepts (\<open>port_ok\<close>, \<open>cell_ok\<close>), as an
    equivalence; and a printer of netlists in the form of Yosys (\<open>print_netlist\<close>), the other half of a round trip.
  \<^item> \<open>Xcl2\<close>: the functions of src/thirdparties/xcl2/xcl2.cpp with which the FPGA back end finds its
    devices and reads the bitstream, and the page-aligned allocator and the tables of
    extension functions of xcl2.hpp.
  \<^item> \<open>Hoge_Wrapper\<close>: bus constants, layout of the two keys, device selection, buffers and
    arguments, \<open>HOGEwrap\<close> and \<open>HOGEMUXwrap\<close>.
  \<^item> \<open>Wrapped_Codelets\<close>: the thirteen codelets with their constants and functions per worker
    type, and cuFHEpp's start and stop.
  \<^item> \<open>Starpu_Build_Graph\<close>: the five ciphertext vectors, \<open>search_pointer\<close>, the submission of a
    task per gate, and the synchronisation of outputs.
  \<^item> \<open>Tangor_Main\<close>: the main program as a sequence of events with its exit code.
  \<^item> \<open>Iyokan_Codelets\<close>: the level-0 codelets and ring codelets of the KVSP evaluator, CPU and
    CUDA, and the gate each TFHEpp function becomes.
  \<^item> \<open>Iyokan_Runtime\<close>: the state of the KVSP backend, of StarPU and of host memory as one record
    (\<open>backend\<close>); one definition per function of the source; the transition relation \<open>iy_step\<close>
    (a call of the client, a write to host memory, the completion of a task, the wake-up of a
    blocked call) and its reachable states; the locales \<open>handle_registry\<close> and
    \<open>invariant_registry\<close> for the two registries of handles; the invariant \<open>backend_inv\<close> and
    that every call keeps it.
  \<^item> \<open>Iyokan_Client\<close>: the invariant in all reachable states; the memory \<open>mem\<close> that a state
    represents (all pending tasks run in order of submission) and how every operation
    acts on it.
  \<^item> \<open>Iyokan_Guarantees\<close>: the properties of the KVSP runtime.
  \<^item> \<open>Iyokan_Threads\<close>: the same calls made by any number of threads. A call is cut into its steps
    (\<open>micro_code\<close>: the call_once, each critical section, each call of StarPU); \<open>micro_steps_are_the_call\<close> shows
    that the steps in a row are the call. Threads share the backend and own their captures;
    \<open>par_step\<close> interleaves their steps with the completion of tasks and with host writes, and \<open>par_inv\<close> is
    the invariant of all interleavings.
  \<^item> \<open>Iyokan_Concurrency\<close>: what holds in every interleaving: linearisability with respect to \<open>spec_run\<close>, a bound on
    the steps until all calls have returned, the causes of exceptions, and the agreement of the
    registries with what each thread has collected.
  \<^item> \<open>Iyokan_Types\<close>: the types of the objects, which the registries forget, are respected in every
    interleaving.

  \<^bold>\<open>What is shown.\<close> For the native evaluator: a parsed netlist is well formed and lists
  what the document describes, exactly the documents that say what the constructor asks for are accepted, and a printed netlist is read back unchanged; each codelet computes its gate on every worker within the noise
  bound; the task graph of a combinational netlist in topological order, run in any order on any
  workers, computes the Boolean circuit, and main writes exactly that result; failures write nothing.
  For the FPGA: the key layouts are bijections, buffers do not overlap, the first device that accepts the bitstream is taken, the multiplexer is right. For the KVSP
  evaluator: gate calls refine the sequential application of their gates, synchronous calls deliver the
  right ciphertext, captured bodies return a token that covers what feeds it, blocked calls can
  return, handles and callback boxes are balanced, failing calls leave nothing behind, and what holds
  around host writes and shutdown. Called by several threads, gate calls are linearisable, all return, throw only for
  causes of their own, and never let a codelet read an object as another type. Where the code does not do what it means to, the theorem
  states what it does: netlists with flip-flops, out-of-order cells, pass-through outputs,
  gates without a codelet, the negated FPGA multiplexer, the bit number that wraps, gates
  after a shutdown, sizes with no unit, allocations whose size wraps around.

  \<^bold>\<open>Parameters and hypotheses.\<close> TFHEpp, cuFHEpp, the HOGE bitstream, OpenCL, StarPU's start
  and the JSON library are not part of the repository. They are fields of records (\<open>tfhe_api\<close>,
  \<open>cufhe_api\<close>, \<open>iyokan_api\<close>, \<open>iy_env\<close> and the platform of \<open>Wrapped_Codelets\<close>), and what the code relies on
  is stated as contracts about them: a bootstrapped linear combination with enough distance to the
  decision boundary encodes its sign within the noise bound. Each contract has a concrete instance
  (noise-free samples of dimension 0), with which the witnesses compute. Widths are those of the source
  where they matter: \<open>uint\<close> is 32 bits, torus words are words of any length. No definition uses fuel; all
  recursion is structural or over finite lists (the size printer's loop has a measure), and waiting is a blocked state of the transition relation.

  \<^bold>\<open>Not modelled.\<close> The internals of the libraries above; serialisation of keys and ciphertexts; time
  measurement and log output, except where a message is the only effect; memory orders of the atomics (a critical section, a call of StarPU and
  an access to an atomic are one step each); configuration and shutdown at the same time as gate calls, which the
  code does not order; the registration of clean-up
  functions with atexit; performance models, which only StarPU reads; the branch of the allocator for Windows; the test drivers under src/test and the plotting script under src/python.
\<close>

end
